theory Spec2Isabelle
  imports Main "HOL-Library.Word"
begin

section \<open>Errors and the native PETSc layer\<close>

text \<open>
  The exceptions of the library, under the names of the specification:
  \<^verbatim>\<open>Assert(..., ExcMessage("invalid size"))\<close> is \<open>InvalidSize\<close>,
  \<^verbatim>\<open>AssertThrow(ierr == 0, ExcPETScError(ierr))\<close> is \<open>BackendError ierr\<close>,
  an index beyond the grid shape is \<open>IndexOutOfRange\<close>, and the use of a grid cell
  that holds no block is \<open>PreconditionViolation\<close>. \<^verbatim>\<open>Assert\<close> is modelled as
  checked (a debug build).
\<close>

datatype error = InvalidSize | IndexOutOfRange | BackendError int | PreconditionViolation

type_synonym PetscErrorCode = int

datatype MPI_Comm = MPI_COMM_NULL | PETSC_COMM_SELF | Comm nat

text \<open>
  Modelled from the spec: the native distributed-matrix backend of section 6 (PETSc is an
  external collaborator and not part of the sources). A \<^verbatim>\<open>Mat\<close> is a handle;
  \<open>None\<close> is \<^verbatim>\<open>nullptr\<close>.
\<close>

type_synonym Mat = "nat option"

datatype MatType = MATUNSET | MATAIJ | MATMPIAIJ | MATNEST

text \<open>
  The native matrix object behind a handle. Sizes are \<^verbatim>\<open>PetscInt\<close> values that are
  never negative here and are kept as naturals; the nonzero count is the 64-bit value
  that \<^verbatim>\<open>n_nonzero_elements\<close> returns.
\<close>

record MatObject =
  obj_comm :: MPI_Comm
  local_rows :: nat
  local_cols :: nat
  global_rows :: nat
  global_cols :: nat
  mat_type :: MatType
  nz_used :: "64 word"
  no_off_proc_entries :: bool
  assembled :: bool
  nest_rows :: nat
  nest_cols :: nat
  nest_subs :: "Mat list"
  refct :: nat

datatype native_call =
    CallMatCreate MPI_Comm
  | CallMatSetSizes Mat nat nat nat nat
  | CallMatSetType Mat MatType
  | CallMatSeqAIJSetPreallocation Mat
  | CallMatMPIAIJSetPreallocation Mat
  | CallMatSetUp Mat
  | CallMatSetOption Mat
  | CallMatAssemblyBegin Mat
  | CallMatAssemblyEnd Mat
  | CallMatDestroy Mat
  | CallMatCreateNest MPI_Comm nat nat "Mat list"

text \<open>
  Modelled from the spec: the state of the native backend of section 6, which is not part
  of the sources. The process-wide state is the store of native objects (\<open>objs\<close>,
  with \<open>fresh\<close> the next unused handle), the status codes that the backend returns on
  the native calls to come (\<open>pending\<close>, in call order; once the list is used up every
  call succeeds), the native calls issued so far (\<open>calls\<close>), and the function-local
  static of \<^verbatim>\<open>get_mpi_communicator\<close> (\<open>static_comm\<close>, \<open>None\<close> before its first
  initialisation).
\<close>

record world =
  objs :: "nat \<Rightarrow> MatObject option"
  fresh :: nat
  pending :: "PetscErrorCode list"
  calls :: "native_call list"
  static_comm :: "MPI_Comm option"

definition world0 :: world where
  "world0 = \<lparr>objs = (\<lambda>h. None), fresh = 0, pending = [], calls = [], static_comm = None\<rparr>"

definition next_status :: "world \<Rightarrow> PetscErrorCode" where
  "next_status w = (case pending w of [] \<Rightarrow> 0 | e # es \<Rightarrow> e)"

text \<open>Issuing a native call: it is logged and the backend answers with its next status.\<close>

definition native :: "native_call \<Rightarrow> world \<Rightarrow> PetscErrorCode \<times> world" where
  "native c w = (next_status w, w\<lparr>pending := tl (pending w), calls := calls w @ [c]\<rparr>)"

definition lookup :: "world \<Rightarrow> Mat \<Rightarrow> MatObject option" where
  "lookup w A = (case A of None \<Rightarrow> None | Some h \<Rightarrow> objs w h)"

definition update_object :: "Mat \<Rightarrow> (MatObject \<Rightarrow> MatObject) \<Rightarrow> world \<Rightarrow> world" where
  "update_object A f w =
     (case A of None \<Rightarrow> w
      | Some h \<Rightarrow> (case objs w h of None \<Rightarrow> w
                   | Some ob \<Rightarrow> w\<lparr>objs := (objs w)(h := Some (f ob))\<rparr>))"

definition new_object :: "MPI_Comm \<Rightarrow> MatObject" where
  "new_object comm =
     \<lparr>obj_comm = comm, local_rows = 0, local_cols = 0, global_rows = 0, global_cols = 0,
      mat_type = MATUNSET, nz_used = 0, no_off_proc_entries = False, assembled = False,
      nest_rows = 0, nest_cols = 0, nest_subs = [], refct = 1\<rparr>"

text \<open>A native call that only changes the object behind a handle.\<close>

definition native_update ::
  "native_call \<Rightarrow> Mat \<Rightarrow> (MatObject \<Rightarrow> MatObject) \<Rightarrow> world \<Rightarrow> PetscErrorCode \<times> world" where
  "native_update c A f w =
     (case native c w of (ierr, w1) \<Rightarrow>
        if ierr \<noteq> 0 then (ierr, w1) else (0, update_object A f w1))"

definition MatCreate :: "MPI_Comm \<Rightarrow> world \<Rightarrow> (PetscErrorCode \<times> Mat) \<times> world" where
  "MatCreate comm w =
     (case native (CallMatCreate comm) w of (ierr, w1) \<Rightarrow>
        if ierr \<noteq> 0 then ((ierr, None), w1)
        else ((0, Some (fresh w1)),
              w1\<lparr>objs := (objs w1)(fresh w1 := Some (new_object comm)),
                 fresh := Suc (fresh w1)\<rparr>))"

definition MatSetSizes ::
  "Mat \<Rightarrow> nat \<Rightarrow> nat \<Rightarrow> nat \<Rightarrow> nat \<Rightarrow> world \<Rightarrow> PetscErrorCode \<times> world" where
  "MatSetSizes A lr lc gr gc =
     native_update (CallMatSetSizes A lr lc gr gc) A
       (\<lambda>ob. ob\<lparr>local_rows := lr, local_cols := lc, global_rows := gr, global_cols := gc\<rparr>)"

definition MatSetType :: "Mat \<Rightarrow> MatType \<Rightarrow> world \<Rightarrow> PetscErrorCode \<times> world" where
  "MatSetType A t = native_update (CallMatSetType A t) A (\<lambda>ob. ob\<lparr>mat_type := t\<rparr>)"

text \<open>Preallocation with zero entries per row and no index array.\<close>

definition MatSeqAIJSetPreallocation :: "Mat \<Rightarrow> world \<Rightarrow> PetscErrorCode \<times> world" where
  "MatSeqAIJSetPreallocation A =
     native_update (CallMatSeqAIJSetPreallocation A) A (\<lambda>ob. ob\<lparr>nz_used := 0\<rparr>)"

definition MatMPIAIJSetPreallocation :: "Mat \<Rightarrow> world \<Rightarrow> PetscErrorCode \<times> world" where
  "MatMPIAIJSetPreallocation A =
     native_update (CallMatMPIAIJSetPreallocation A) A (\<lambda>ob. ob\<lparr>nz_used := 0\<rparr>)"

definition MatSetUp :: "Mat \<Rightarrow> world \<Rightarrow> PetscErrorCode \<times> world" where
  "MatSetUp A = native_update (CallMatSetUp A) A (\<lambda>ob. ob)"

text \<open>\<^verbatim>\<open>MatSetOption(A, MAT_NO_OFF_PROC_ENTRIES, PETSC_TRUE)\<close>.\<close>

definition MatSetOption :: "Mat \<Rightarrow> world \<Rightarrow> PetscErrorCode \<times> world" where
  "MatSetOption A =
     native_update (CallMatSetOption A) A (\<lambda>ob. ob\<lparr>no_off_proc_entries := True\<rparr>)"

definition MatAssemblyBegin :: "Mat \<Rightarrow> world \<Rightarrow> PetscErrorCode \<times> world" where
  "MatAssemblyBegin A = native_update (CallMatAssemblyBegin A) A (\<lambda>ob. ob)"

definition MatAssemblyEnd :: "Mat \<Rightarrow> world \<Rightarrow> PetscErrorCode \<times> world" where
  "MatAssemblyEnd A =
     native_update (CallMatAssemblyEnd A) A (\<lambda>ob. ob\<lparr>assembled := True\<rparr>)"

text \<open>
  \<^verbatim>\<open>MatDestroy(&A)\<close>: nothing happens on a null handle; otherwise one reference is
  given up, the object is released when it was the last one, and the caller's handle is
  set to null. The second component of the result is the caller's handle afterwards.
\<close>

definition release :: "nat \<Rightarrow> world \<Rightarrow> world" where
  "release h w =
     (case objs w h of None \<Rightarrow> w
      | Some ob \<Rightarrow>
          if refct ob \<le> 1 then w\<lparr>objs := (objs w)(h := None)\<rparr>
          else w\<lparr>objs := (objs w)(h := Some (ob\<lparr>refct := refct ob - 1\<rparr>))\<rparr>)"

definition MatDestroy :: "Mat \<Rightarrow> world \<Rightarrow> (PetscErrorCode \<times> Mat) \<times> world" where
  "MatDestroy A w =
     (case A of
        None \<Rightarrow> ((0, None), w\<lparr>calls := calls w @ [CallMatDestroy None]\<rparr>)
      | Some h \<Rightarrow>
          (case native (CallMatDestroy A) w of (ierr, w1) \<Rightarrow>
             if ierr \<noteq> 0 then ((ierr, A), w1) else ((0, None), release h w1)))"

text \<open>\<^verbatim>\<open>destroy_matrix\<close> of \<^verbatim>\<open>petsc_compatibility.h\<close> is \<^verbatim>\<open>MatDestroy\<close>.\<close>

definition destroy_matrix :: "Mat \<Rightarrow> world \<Rightarrow> (PetscErrorCode \<times> Mat) \<times> world" where
  "destroy_matrix A w = MatDestroy A w"

definition nest_object :: "MPI_Comm \<Rightarrow> nat \<Rightarrow> nat \<Rightarrow> Mat list \<Rightarrow> MatObject" where
  "nest_object comm nr nc subs =
     (new_object comm)\<lparr>mat_type := MATNEST, assembled := True,
                       nest_rows := nr, nest_cols := nc, nest_subs := subs\<rparr>"

text \<open>
  \<^verbatim>\<open>MatCreateNest(comm, nr, nullptr, nc, nullptr, subs, &B)\<close>: a new object that
  holds the handles \<open>subs\<close> themselves, in row-major order.
\<close>

definition MatCreateNest ::
  "MPI_Comm \<Rightarrow> nat \<Rightarrow> nat \<Rightarrow> Mat list \<Rightarrow> world \<Rightarrow> (PetscErrorCode \<times> Mat) \<times> world" where
  "MatCreateNest comm nr nc subs w =
     (case native (CallMatCreateNest comm nr nc subs) w of (ierr, w1) \<Rightarrow>
        if ierr \<noteq> 0 then ((ierr, None), w1)
        else ((0, Some (fresh w1)),
              w1\<lparr>objs := (objs w1)(fresh w1 := Some (nest_object comm nr nc subs)),
                 fresh := Suc (fresh w1)\<rparr>))"

text \<open>\<^verbatim>\<open>PetscObjectComm\<close>: the communicator of an object, the null one for no object.\<close>

definition PetscObjectComm :: "world \<Rightarrow> Mat \<Rightarrow> MPI_Comm" where
  "PetscObjectComm w A = (case lookup w A of None \<Rightarrow> MPI_COMM_NULL | Some ob \<Rightarrow> obj_comm ob)"

section \<open>Computations that may throw\<close>

type_synonym 'a io = "world \<Rightarrow> (error + 'a) \<times> world"

definition ret :: "'a \<Rightarrow> 'a io" where
  "ret x = (\<lambda>w. (Inr x, w))"

definition throw :: "error \<Rightarrow> 'a io" where
  "throw e = (\<lambda>w. (Inl e, w))"

definition bnd :: "'a io \<Rightarrow> ('a \<Rightarrow> 'b io) \<Rightarrow> 'b io" where
  "bnd m f = (\<lambda>w. case m w of (Inl e, w1) \<Rightarrow> (Inl e, w1) | (Inr x, w1) \<Rightarrow> f x w1)"

text \<open>\<^verbatim>\<open>ierr = call; AssertThrow(ierr == 0, ExcPETScError(ierr))\<close>.\<close>

definition AssertThrow :: "(world \<Rightarrow> PetscErrorCode \<times> world) \<Rightarrow> unit io" where
  "AssertThrow call = (\<lambda>w. case call w of (ierr, w1) \<Rightarrow>
     if ierr = 0 then (Inr (), w1) else (Inl (BackendError ierr), w1))"

text \<open>The same for a call with an output parameter.\<close>

definition AssertThrow_out :: "(world \<Rightarrow> (PetscErrorCode \<times> 'a) \<times> world) \<Rightarrow> 'a io" where
  "AssertThrow_out call = (\<lambda>w. case call w of ((ierr, x), w1) \<Rightarrow>
     if ierr = 0 then (Inr x, w1) else (Inl (BackendError ierr), w1))"

text \<open>\<^verbatim>\<open>Assert(cond, ExcMessage("invalid size"))\<close> and its like.\<close>

definition Assert :: "bool \<Rightarrow> error \<Rightarrow> unit io" where
  "Assert cond e = (\<lambda>w. if cond then (Inr (), w) else (Inl e, w))"

text \<open>A \<^verbatim>\<open>for\<close> loop over the indices \<open>is\<close> whose body may throw.\<close>

fun for_each :: "'i list \<Rightarrow> ('i \<Rightarrow> 'a \<Rightarrow> 'a io) \<Rightarrow> 'a \<Rightarrow> 'a io" where
  "for_each [] body a w = (Inr a, w)"
| "for_each (i # is) body a w =
     (case body i a w of (Inl e, w1) \<Rightarrow> (Inl e, w1) | (Inr a1, w1) \<Rightarrow> for_each is body a1 w1)"

section \<open>The placeholder factory\<close>

definition create_dummy_mat :: "MPI_Comm \<Rightarrow> nat \<Rightarrow> nat \<Rightarrow> nat \<Rightarrow> nat \<Rightarrow> Mat io" where
  "create_dummy_mat comm lr gr lc gc =
     bnd (AssertThrow_out (MatCreate comm)) (\<lambda>dummy.
     bnd (AssertThrow (MatSetSizes dummy lr lc gr gc)) (\<lambda>_.
     bnd (AssertThrow (MatSetType dummy MATAIJ)) (\<lambda>_.
     bnd (AssertThrow (MatSeqAIJSetPreallocation dummy)) (\<lambda>_.
     bnd (AssertThrow (MatMPIAIJSetPreallocation dummy)) (\<lambda>_.
     bnd (AssertThrow (MatSetUp dummy)) (\<lambda>_.
     bnd (AssertThrow (MatSetOption dummy)) (\<lambda>_.
     bnd (AssertThrow (MatAssemblyBegin dummy)) (\<lambda>_.
     bnd (AssertThrow (MatAssemblyEnd dummy)) (\<lambda>_.
     ret dummy)))))))))"

section \<open>Blocks and block indices\<close>

text \<open>
  Modelled from the spec: the block wrapper of section 4.2 (the classes
  \<^verbatim>\<open>PETScWrappers::MatrixBase\<close> and \<^verbatim>\<open>PETScWrappers::MPI::SparseMatrix\<close> are not
  part of the sources). A block wraps one native handle or none; its queries are pure
  reads of the native object, and an empty block answers 0 to every size query.
\<close>

record SparseMatrix =
  matrix :: Mat

text \<open>\<^verbatim>\<open>new BlockType()\<close>: the empty block, which wraps no native resource.\<close>

definition SparseMatrix_empty :: SparseMatrix where
  "SparseMatrix_empty = \<lparr>matrix = None\<rparr>"

text \<open>
  \<^verbatim>\<open>new BlockType(A)\<close>: the block adopts the handle and takes a reference of its own
  on the native object.
\<close>

definition SparseMatrix_adopt :: "Mat \<Rightarrow> SparseMatrix io" where
  "SparseMatrix_adopt A =
     (\<lambda>w. (Inr \<lparr>matrix = A\<rparr>, update_object A (\<lambda>ob. ob\<lparr>refct := Suc (refct ob)\<rparr>) w))"

definition petsc_matrix :: "SparseMatrix \<Rightarrow> Mat" where
  "petsc_matrix b = matrix b"

definition MatrixBase_m :: "world \<Rightarrow> SparseMatrix \<Rightarrow> nat" where
  "MatrixBase_m w b = (case lookup w (matrix b) of None \<Rightarrow> 0 | Some ob \<Rightarrow> global_rows ob)"

definition MatrixBase_n :: "world \<Rightarrow> SparseMatrix \<Rightarrow> nat" where
  "MatrixBase_n w b = (case lookup w (matrix b) of None \<Rightarrow> 0 | Some ob \<Rightarrow> global_cols ob)"

definition MatrixBase_local_size :: "world \<Rightarrow> SparseMatrix \<Rightarrow> nat" where
  "MatrixBase_local_size w b =
     (case lookup w (matrix b) of None \<Rightarrow> 0 | Some ob \<Rightarrow> local_rows ob)"

definition MatrixBase_local_domain_size :: "world \<Rightarrow> SparseMatrix \<Rightarrow> nat" where
  "MatrixBase_local_domain_size w b =
     (case lookup w (matrix b) of None \<Rightarrow> 0 | Some ob \<Rightarrow> local_cols ob)"

definition MatrixBase_n_nonzero_elements :: "world \<Rightarrow> SparseMatrix \<Rightarrow> 64 word" where
  "MatrixBase_n_nonzero_elements w b =
     (case lookup w (matrix b) of None \<Rightarrow> 0 | Some ob \<Rightarrow> nz_used ob)"

definition MatrixBase_get_mpi_communicator :: "world \<Rightarrow> SparseMatrix \<Rightarrow> MPI_Comm" where
  "MatrixBase_get_mpi_communicator w b = PetscObjectComm w (matrix b)"

text \<open>
  Modelled from the spec: BlockIndexing of section 4.1 (class \<^verbatim>\<open>BlockIndices\<close> is not
  part of the sources): the ordered sequence of block sizes of one axis.
\<close>

record BlockIndices =
  block_sizes :: "nat list"

definition BlockIndices_reinit :: "nat \<Rightarrow> nat \<Rightarrow> BlockIndices" where
  "BlockIndices_reinit n_blocks sz = \<lparr>block_sizes = replicate n_blocks sz\<rparr>"

definition BlockIndices_reinit_sizes :: "nat list \<Rightarrow> BlockIndices" where
  "BlockIndices_reinit_sizes szs = \<lparr>block_sizes = szs\<rparr>"

definition BlockIndices_size :: "BlockIndices \<Rightarrow> nat" where
  "BlockIndices_size bi = length (block_sizes bi)"

definition total_size :: "BlockIndices \<Rightarrow> nat" where
  "total_size bi = sum_list (block_sizes bi)"

section \<open>The block matrix\<close>

text \<open>
  The base class \<^verbatim>\<open>BlockMatrixBase\<close> holds the grid of block pointers (\<open>None\<close> is the
  null pointer; the entry of row \<open>r\<close> and column \<open>c\<close> is \<open>sub_objects bm r c\<close>) and the
  block indices of both axes; \<^verbatim>\<open>BlockSparseMatrix\<close> adds the aggregate handle.
\<close>

record BlockMatrixBase =
  sub_objects :: "nat \<Rightarrow> nat \<Rightarrow> SparseMatrix option"
  row_block_indices :: BlockIndices
  column_block_indices :: BlockIndices

record BlockSparseMatrix = BlockMatrixBase +
  petsc_nest_matrix :: Mat

text \<open>
  Modelled from the spec: the grid shape (the base class's \<^verbatim>\<open>n_block_rows\<close> and
  \<^verbatim>\<open>n_block_cols\<close> are not part of the sources) is the block count of the row and
  of the column BlockIndexing.
\<close>

definition n_block_rows :: "'a BlockMatrixBase_scheme \<Rightarrow> nat" where
  "n_block_rows bm = BlockIndices_size (row_block_indices bm)"

definition n_block_cols :: "'a BlockMatrixBase_scheme \<Rightarrow> nat" where
  "n_block_cols bm = BlockIndices_size (column_block_indices bm)"

text \<open>The global row and column counts \<^verbatim>\<open>m()\<close> and \<^verbatim>\<open>n()\<close> of the block matrix.\<close>

definition BlockMatrixBase_m :: "'a BlockMatrixBase_scheme \<Rightarrow> nat" where
  "BlockMatrixBase_m bm = total_size (row_block_indices bm)"

definition BlockMatrixBase_n :: "'a BlockMatrixBase_scheme \<Rightarrow> nat" where
  "BlockMatrixBase_n bm = total_size (column_block_indices bm)"

text \<open>
  Modelled from the spec: \<^verbatim>\<open>block(r, c)\<close> of section 4.4 (defined in the base class,
  which is not part of the sources): bounds-checked against the grid shape; a cell that
  holds no block cannot be dereferenced.
\<close>

definition block :: "'a BlockMatrixBase_scheme \<Rightarrow> nat \<Rightarrow> nat \<Rightarrow> error + SparseMatrix" where
  "block bm r c =
     (if n_block_rows bm \<le> r \<or> n_block_cols bm \<le> c then Inl IndexOutOfRange
      else case sub_objects bm r c of None \<Rightarrow> Inl PreconditionViolation | Some b \<Rightarrow> Inr b)"

definition set_block ::
  "nat \<Rightarrow> nat \<Rightarrow> SparseMatrix option \<Rightarrow> 'a BlockMatrixBase_scheme \<Rightarrow> 'a BlockMatrixBase_scheme"
  where
  "set_block r c p bm = bm\<lparr>sub_objects := (sub_objects bm)(r := (sub_objects bm r)(c := p))\<rparr>"

definition lift_result :: "error + 'a \<Rightarrow> 'a io" where
  "lift_result x = (\<lambda>w. (x, w))"

text \<open>
  Modelled from the spec: step 4 of \<^verbatim>\<open>synchronize()\<close>, the base class's
  \<^verbatim>\<open>collect_sizes\<close> (not part of the sources): the row sizes are read from the blocks
  of column 0 and the column sizes from the blocks of row 0.
\<close>

definition BlockMatrixBase_collect_sizes ::
  "'a BlockMatrixBase_scheme \<Rightarrow> ('a BlockMatrixBase_scheme) io" where
  "BlockMatrixBase_collect_sizes bm =
     bnd (for_each [0..<n_block_rows bm]
            (\<lambda>r szs. bnd (lift_result (block bm r 0))
                       (\<lambda>b w. (Inr (szs @ [MatrixBase_m w b]), w))) []) (\<lambda>row_sizes.
     bnd (for_each [0..<n_block_cols bm]
            (\<lambda>c szs. bnd (lift_result (block bm 0 c))
                       (\<lambda>b w. (Inr (szs @ [MatrixBase_n w b]), w))) []) (\<lambda>col_sizes.
     ret (bm\<lparr>row_block_indices := BlockIndices_reinit_sizes row_sizes,
              column_block_indices := BlockIndices_reinit_sizes col_sizes\<rparr>)))"

text \<open>
  Modelled from the spec: \<^verbatim>\<open>BaseClass::operator=(m)\<close> (the base class is not part of
  the sources) assigns the state that section 3 gives to the base part, the grid and the
  block indexing of both axes, member by member. It has no access to the members of the
  derived class.
\<close>

definition BlockMatrixBase_assign ::
  "'a BlockMatrixBase_scheme \<Rightarrow> 'b BlockMatrixBase_scheme \<Rightarrow> 'a BlockMatrixBase_scheme" where
  "BlockMatrixBase_assign this m =
     this\<lparr>sub_objects := sub_objects m,
          row_block_indices := row_block_indices m,
          column_block_indices := column_block_indices m\<rparr>"

definition operator_assign :: "BlockSparseMatrix \<Rightarrow> BlockSparseMatrix \<Rightarrow> BlockSparseMatrix" where
  "operator_assign this m = BlockMatrixBase_assign this m"

text \<open>
  Modelled from the spec: \<^verbatim>\<open>clear()\<close> of section 4.4 (not part of the sources):
  destroys and removes all blocks, destroys the aggregate, and resets the grid to
  0 by 0. A block is deleted through its destructor, which releases its native resource
  and does not throw.
\<close>

definition delete_block :: "SparseMatrix option \<Rightarrow> world \<Rightarrow> world" where
  "delete_block p w = (case p of None \<Rightarrow> w | Some b \<Rightarrow> snd (destroy_matrix (matrix b) w))"

definition clear :: "BlockSparseMatrix \<Rightarrow> BlockSparseMatrix io" where
  "clear bm = (\<lambda>w.
     let w1 = fold (\<lambda>r. fold (\<lambda>c. delete_block (sub_objects bm r c)) [0..<n_block_cols bm])
                [0..<n_block_rows bm] w
     in case destroy_matrix (petsc_nest_matrix bm) w1 of ((ierr, nest), w2) \<Rightarrow>
          (Inr (bm\<lparr>sub_objects := (\<lambda>r c. None),
                   row_block_indices := BlockIndices_reinit 0 0,
                   column_block_indices := BlockIndices_reinit 0 0,
                   petsc_nest_matrix := nest\<rparr>), w2))"

text \<open>\<^verbatim>\<open>reinit(n_block_rows, n_block_columns)\<close>.\<close>

definition reinit :: "nat \<Rightarrow> nat \<Rightarrow> BlockSparseMatrix \<Rightarrow> BlockSparseMatrix io" where
  "reinit n_rows n_columns bm =
     bnd (clear bm) (\<lambda>bm0.
     let bm1 = bm0\<lparr>sub_objects := (\<lambda>r c. None),
                   row_block_indices := BlockIndices_reinit n_rows 0,
                   column_block_indices := BlockIndices_reinit n_columns 0\<rparr>
     in ret (fold (\<lambda>r. fold (\<lambda>c. set_block r c (Some SparseMatrix_empty))
                          [0..<n_block_cols bm1])
               [0..<n_block_rows bm1] bm1))"

section \<open>Structural synchronisation: \<^verbatim>\<open>collect_sizes\<close>\<close>

text \<open>
  The local variables of the size-recording scan. The four vectors are created with
  \<open>m\<close> or \<open>n\<close> zero entries and are only written at indices below their length.
\<close>

record scan =
  comm :: MPI_Comm
  row_sizes :: "nat list"
  col_sizes :: "nat list"
  row_local_sizes :: "nat list"
  col_local_sizes :: "nat list"

definition scan_cell :: "world \<Rightarrow> 'a BlockMatrixBase_scheme \<Rightarrow> nat \<Rightarrow> nat \<Rightarrow> scan \<Rightarrow> scan" where
  "scan_cell w bm r c s =
     (case sub_objects bm r c of
        None \<Rightarrow> s
      | Some b \<Rightarrow>
          s\<lparr>comm := MatrixBase_get_mpi_communicator w b,
            row_sizes := (row_sizes s)[r := MatrixBase_m w b],
            col_sizes := (col_sizes s)[c := MatrixBase_n w b],
            row_local_sizes := (row_local_sizes s)[r := MatrixBase_local_size w b],
            col_local_sizes := (col_local_sizes s)[c := MatrixBase_local_domain_size w b]\<rparr>)"

definition scan_init :: "nat \<Rightarrow> nat \<Rightarrow> scan" where
  "scan_init m n =
     \<lparr>comm = MPI_COMM_NULL, row_sizes = replicate m 0, col_sizes = replicate n 0,
      row_local_sizes = replicate m 0, col_local_sizes = replicate n 0\<rparr>"

definition scan_sizes :: "world \<Rightarrow> 'a BlockMatrixBase_scheme \<Rightarrow> scan" where
  "scan_sizes w bm =
     fold (\<lambda>r. fold (\<lambda>c. scan_cell w bm r c) [0..<n_block_cols bm]) [0..<n_block_rows bm]
       (scan_init (n_block_rows bm) (n_block_cols bm))"

text \<open>
  The body of the second loop nest: a null cell gets a placeholder block. The casts of
  the recorded sizes to \<^verbatim>\<open>PetscInt\<close> change no value that a block has reported.
\<close>

definition fill_cell :: "scan \<Rightarrow> nat \<Rightarrow> nat \<Rightarrow> BlockSparseMatrix \<Rightarrow> BlockSparseMatrix io" where
  "fill_cell s r c bm =
     (case sub_objects bm r c of
        Some b \<Rightarrow> ret bm
      | None \<Rightarrow>
          bnd (create_dummy_mat (comm s) (row_local_sizes s ! r) (row_sizes s ! r)
                 (col_local_sizes s ! c) (col_sizes s ! c)) (\<lambda>dummy.
          bnd (SparseMatrix_adopt dummy) (\<lambda>b.
          bnd (AssertThrow_out (MatDestroy dummy)) (\<lambda>_.
          ret (set_block r c (Some b) bm)))))"

text \<open>
  \<^verbatim>\<open>psub_objects[r * n + c] = sub_objects[r][c]->petsc_matrix()\<close>, on a vector of
  \<open>m * n\<close> handles. Every cell holds a block when this loop runs.
\<close>

definition cell_matrix :: "'a BlockMatrixBase_scheme \<Rightarrow> nat \<Rightarrow> nat \<Rightarrow> Mat" where
  "cell_matrix bm r c = (case sub_objects bm r c of None \<Rightarrow> None | Some b \<Rightarrow> petsc_matrix b)"

definition psub_objects :: "'a BlockMatrixBase_scheme \<Rightarrow> nat \<Rightarrow> nat \<Rightarrow> Mat list" where
  "psub_objects bm m n =
     fold (\<lambda>r. fold (\<lambda>c ps. ps[r * n + c := cell_matrix bm r c]) [0..<n]) [0..<m]
       (replicate (m * n) None)"

definition collect_sizes :: "BlockSparseMatrix \<Rightarrow> BlockSparseMatrix io" where
  "collect_sizes bm = (\<lambda>w.
     let m = n_block_rows bm; n = n_block_cols bm; s = scan_sizes w bm in
     bnd (for_each [0..<m] (\<lambda>r. for_each [0..<n] (\<lambda>c. fill_cell s r c)) bm) (\<lambda>bm1.
     bnd (BlockMatrixBase_collect_sizes bm1) (\<lambda>bm2.
     bnd (AssertThrow_out (destroy_matrix (petsc_nest_matrix bm2))) (\<lambda>nest.
     bnd (AssertThrow_out
            (MatCreateNest (comm s) m n (psub_objects bm2 m n))) (\<lambda>nest1.
     ret (bm2\<lparr>petsc_nest_matrix := nest1\<rparr>))))) w)"

section \<open>Queries\<close>

definition n_nonzero_elements :: "'a BlockMatrixBase_scheme \<Rightarrow> (64 word) io" where
  "n_nonzero_elements bm =
     for_each [0..<n_block_rows bm] (\<lambda>rows.
       for_each [0..<n_block_cols bm] (\<lambda>cols n_nonzero.
         bnd (lift_result (block bm rows cols))
           (\<lambda>b w. (Inr (n_nonzero + MatrixBase_n_nonzero_elements w b), w)))) 0"

text \<open>
  \<^verbatim>\<open>get_mpi_communicator\<close>: the function-local static \<^verbatim>\<open>comm\<close> is initialised with
  \<^verbatim>\<open>PETSC_COMM_SELF\<close> by the first call in the process and keeps its value between
  calls, whichever object they are made on.
\<close>

definition get_mpi_communicator :: "BlockSparseMatrix \<Rightarrow> world \<Rightarrow> MPI_Comm \<times> world" where
  "get_mpi_communicator bm w =
     (let comm0 = (case static_comm w of None \<Rightarrow> PETSC_COMM_SELF | Some c \<Rightarrow> c);
          pcomm = PetscObjectComm w (petsc_nest_matrix bm);
          comm1 = (if pcomm \<noteq> MPI_COMM_NULL then pcomm else comm0)
      in (comm1, w\<lparr>static_comm := Some comm1\<rparr>))"

section \<open>Initialisation from a partition and a block sparsity pattern\<close>

text \<open>
  Modelled from the spec: the collaborators of
  \<^verbatim>\<open>reinit(rows, cols, bdsp, com)\<close> (the classes \<^verbatim>\<open>IndexSet\<close>,
  \<^verbatim>\<open>DynamicSparsityPattern\<close> and \<^verbatim>\<open>BlockDynamicSparsityPattern\<close> are not part of
  the sources). An index set has the size of its index space and a number of locally
  owned elements; a sparsity pattern has a shape and a number of entries; a block sparsity
  pattern is a bounds-checked grid of patterns.
\<close>

record IndexSet =
  index_space_size :: nat
  n_elements :: nat

record DynamicSparsityPattern =
  n_rows :: nat
  n_cols :: nat
  n_nonzero_entries :: nat

record BlockDynamicSparsityPattern =
  bdsp_n_block_rows :: nat
  bdsp_n_block_cols :: nat
  bdsp_sub_objects :: "nat \<Rightarrow> nat \<Rightarrow> DynamicSparsityPattern"

definition bdsp_block ::
  "BlockDynamicSparsityPattern \<Rightarrow> nat \<Rightarrow> nat \<Rightarrow> error + DynamicSparsityPattern" where
  "bdsp_block bdsp r c =
     (if bdsp_n_block_rows bdsp \<le> r \<or> bdsp_n_block_cols bdsp \<le> c then Inl IndexOutOfRange
      else Inr (bdsp_sub_objects bdsp r c))"

text \<open>Preallocation of a native matrix for the entries of a sparsity pattern.\<close>

definition MatPreallocate :: "Mat \<Rightarrow> DynamicSparsityPattern \<Rightarrow> world \<Rightarrow> PetscErrorCode \<times> world"
  where
  "MatPreallocate A pat =
     native_update (CallMatMPIAIJSetPreallocation A) A
       (\<lambda>ob. ob\<lparr>nz_used := of_nat (n_nonzero_entries pat)\<rparr>)"

text \<open>
  Modelled from the spec: construction of a block from an explicit partition (section
  4.2; \<^verbatim>\<open>SparseMatrix::reinit\<close> is not part of the sources): a new native resource is
  created over the process group, sized by the partition and the pattern, preallocated
  for the pattern and finalised, with the native calls of section 6 in their order.
\<close>

definition SparseMatrix_reinit ::
  "IndexSet \<Rightarrow> IndexSet \<Rightarrow> DynamicSparsityPattern \<Rightarrow> MPI_Comm \<Rightarrow> SparseMatrix io" where
  "SparseMatrix_reinit own_rows own_columns pat com =
     bnd (AssertThrow_out (MatCreate com)) (\<lambda>A.
     bnd (AssertThrow (MatSetSizes A (n_elements own_rows) (n_elements own_columns)
                         (n_rows pat) (n_cols pat))) (\<lambda>_.
     bnd (AssertThrow (MatSetType A MATMPIAIJ)) (\<lambda>_.
     bnd (AssertThrow (MatPreallocate A pat)) (\<lambda>_.
     bnd (AssertThrow (MatAssemblyBegin A)) (\<lambda>_.
     bnd (AssertThrow (MatAssemblyEnd A)) (\<lambda>_.
     ret \<lparr>matrix = A\<rparr>))))))"

text \<open>The body of the loop nest of \<^verbatim>\<open>reinit(rows, cols, bdsp, com)\<close>.\<close>

definition reinit_cell ::
  "IndexSet list \<Rightarrow> IndexSet list \<Rightarrow> BlockDynamicSparsityPattern \<Rightarrow> MPI_Comm \<Rightarrow>
   nat \<Rightarrow> nat \<Rightarrow> BlockSparseMatrix \<Rightarrow> BlockSparseMatrix io" where
  "reinit_cell rows cols bdsp com r c bm =
     bnd (lift_result (bdsp_block bdsp r c)) (\<lambda>pat.
     bnd (Assert (index_space_size (rows ! r) = n_rows pat) InvalidSize) (\<lambda>_.
     bnd (Assert (index_space_size (cols ! c) = n_cols pat) InvalidSize) (\<lambda>_.
     bnd (SparseMatrix_reinit (rows ! r) (cols ! c) pat com) (\<lambda>p.
     ret (set_block r c (Some p) bm)))))"

definition reinit_partition ::
  "IndexSet list \<Rightarrow> IndexSet list \<Rightarrow> BlockDynamicSparsityPattern \<Rightarrow> MPI_Comm \<Rightarrow>
   BlockSparseMatrix \<Rightarrow> BlockSparseMatrix io" where
  "reinit_partition rows cols bdsp com bm =
     bnd (Assert (length rows = bdsp_n_block_rows bdsp) InvalidSize) (\<lambda>_.
     bnd (Assert (length cols = bdsp_n_block_cols bdsp) InvalidSize) (\<lambda>_.
     bnd (clear bm) (\<lambda>bm0.
     bnd (for_each [0..<bdsp_n_block_rows bdsp]
            (\<lambda>r szs. bnd (lift_result (bdsp_block bdsp r 0))
                       (\<lambda>pat. ret (szs @ [n_rows pat]))) []) (\<lambda>row_sizes.
     bnd (for_each [0..<bdsp_n_block_cols bdsp]
            (\<lambda>c szs. bnd (lift_result (bdsp_block bdsp 0 c))
                       (\<lambda>pat. ret (szs @ [n_cols pat]))) []) (\<lambda>col_sizes.
     let bm1 = bm0\<lparr>sub_objects := (\<lambda>r c. None),
                   row_block_indices := BlockIndices_reinit_sizes row_sizes,
                   column_block_indices := BlockIndices_reinit_sizes col_sizes\<rparr>
     in bnd (for_each [0..<n_block_rows bm1]
               (\<lambda>r. for_each [0..<n_block_cols bm1] (\<lambda>c. reinit_cell rows cols bdsp com r c))
               bm1)
          collect_sizes)))))"

text \<open>\<^verbatim>\<open>reinit(sizes, bdsp, com)\<close>.\<close>

definition reinit_sizes ::
  "IndexSet list \<Rightarrow> BlockDynamicSparsityPattern \<Rightarrow> MPI_Comm \<Rightarrow>
   BlockSparseMatrix \<Rightarrow> BlockSparseMatrix io" where
  "reinit_sizes sizes bdsp com bm = reinit_partition sizes sizes bdsp com bm"

section \<open>Notions used in the statements\<close>

text \<open>The default-constructed block matrix: a 0 by 0 grid and no aggregate.\<close>

definition empty_matrix :: BlockSparseMatrix where
  "empty_matrix =
     \<lparr>sub_objects = (\<lambda>r c. None), row_block_indices = BlockIndices_reinit 0 0,
      column_block_indices = BlockIndices_reinit 0 0, petsc_nest_matrix = None\<rparr>"

text \<open>The native object that a successful \<^verbatim>\<open>create_dummy_mat\<close> leaves behind.\<close>

definition dummy_object :: "MPI_Comm \<Rightarrow> nat \<Rightarrow> nat \<Rightarrow> nat \<Rightarrow> nat \<Rightarrow> MatObject" where
  "dummy_object cm lr gr lc gc =
     (new_object cm)\<lparr>local_rows := lr, local_cols := lc, global_rows := gr, global_cols := gc,
        mat_type := MATAIJ, no_off_proc_entries := True, assembled := True\<rparr>"

text \<open>The native calls of a successful \<^verbatim>\<open>create_dummy_mat\<close>, in order.\<close>

definition dummy_calls :: "MPI_Comm \<Rightarrow> Mat \<Rightarrow> nat \<Rightarrow> nat \<Rightarrow> nat \<Rightarrow> nat \<Rightarrow> native_call list" where
  "dummy_calls cm A lr gr lc gc =
     [CallMatCreate cm, CallMatSetSizes A lr lc gr gc, CallMatSetType A MATAIJ,
      CallMatSeqAIJSetPreallocation A, CallMatMPIAIJSetPreallocation A, CallMatSetUp A,
      CallMatSetOption A, CallMatAssemblyBegin A, CallMatAssemblyEnd A]"

text \<open>
  The state of the second loop nest of \<^verbatim>\<open>collect_sizes\<close> once the cells in \<open>D\<close> have
  been visited, relative to the state \<open>(bm, w)\<close> before the loop: a visited cell that was
  null holds a new placeholder of the recorded sizes, every other cell is as before, and
  no native object that existed before has changed.
\<close>

definition filled ::
  "scan \<Rightarrow> BlockSparseMatrix \<Rightarrow> world \<Rightarrow> (nat \<times> nat) set \<Rightarrow> BlockSparseMatrix \<Rightarrow> world \<Rightarrow> bool"
  where
  "filled s bm w D bm' w' \<longleftrightarrow>
     row_block_indices bm' = row_block_indices bm \<and>
     column_block_indices bm' = column_block_indices bm \<and>
     petsc_nest_matrix bm' = petsc_nest_matrix bm \<and>
     fresh w \<le> fresh w' \<and> static_comm w' = static_comm w \<and>
     (\<forall>h. h < fresh w \<longrightarrow> objs w' h = objs w h) \<and>
     (\<forall>r c. if (r, c) \<in> D \<and> sub_objects bm r c = None
            then (\<exists>h. fresh w \<le> h \<and> h < fresh w' \<and>
                      sub_objects bm' r c = Some \<lparr>matrix = Some h\<rparr> \<and>
                      objs w' h = Some (dummy_object (comm s) (row_local_sizes s ! r)
                         (row_sizes s ! r) (col_local_sizes s ! c) (col_sizes s ! c)))
            else sub_objects bm' r c = sub_objects bm r c)"

definition scan_lengths :: "scan \<Rightarrow> nat \<times> nat \<times> nat \<times> nat" where
  "scan_lengths s = (length (row_sizes s), length (col_sizes s),
     length (row_local_sizes s), length (col_local_sizes s))"

text \<open>The global and local size recorded for a row, and for a column.\<close>

definition row_entry :: "nat \<Rightarrow> scan \<Rightarrow> nat \<times> nat" where
  "row_entry r s = (row_sizes s ! r, row_local_sizes s ! r)"

definition col_entry :: "nat \<Rightarrow> scan \<Rightarrow> nat \<times> nat" where
  "col_entry c s = (col_sizes s ! c, col_local_sizes s ! c)"

text \<open>Reads of the block in a grid cell (0 for a null cell).\<close>

definition cell_nonzero_count :: "world \<Rightarrow> 'a BlockMatrixBase_scheme \<Rightarrow> nat \<Rightarrow> nat \<Rightarrow> 64 word"
  where
  "cell_nonzero_count w bm r c =
     (case sub_objects bm r c of None \<Rightarrow> 0 | Some b \<Rightarrow> MatrixBase_n_nonzero_elements w b)"

definition cell_m :: "world \<Rightarrow> 'a BlockMatrixBase_scheme \<Rightarrow> nat \<Rightarrow> nat \<Rightarrow> nat" where
  "cell_m w bm r c = (case sub_objects bm r c of None \<Rightarrow> 0 | Some b \<Rightarrow> MatrixBase_m w b)"

definition cell_n :: "world \<Rightarrow> 'a BlockMatrixBase_scheme \<Rightarrow> nat \<Rightarrow> nat \<Rightarrow> nat" where
  "cell_n w bm r c = (case sub_objects bm r c of None \<Rightarrow> 0 | Some b \<Rightarrow> MatrixBase_n w b)"

text \<open>Every cell of the grid holds a block.\<close>

definition all_cells_assigned :: "'a BlockMatrixBase_scheme \<Rightarrow> bool" where
  "all_cells_assigned bm \<longleftrightarrow>
     (\<forall>r \<in> {0..<n_block_rows bm}. \<forall>c \<in> {0..<n_block_cols bm}. sub_objects bm r c \<noteq> None)"

text \<open>A handle that is null or was handed out by the backend.\<close>

definition allocated :: "world \<Rightarrow> Mat \<Rightarrow> bool" where
  "allocated w A = (case A of None \<Rightarrow> True | Some h \<Rightarrow> h < fresh w)"

text \<open>The world after a successful \<^verbatim>\<open>destroy_matrix(A)\<close>.\<close>

definition destroyed :: "Mat \<Rightarrow> world \<Rightarrow> world" where
  "destroyed A w =
     (case A of
        None \<Rightarrow> w\<lparr>calls := calls w @ [CallMatDestroy None]\<rparr>
      | Some h \<Rightarrow>
          release h (w\<lparr>pending := tl (pending w), calls := calls w @ [CallMatDestroy (Some h)]\<rparr>))"

text \<open>The world after a successful \<^verbatim>\<open>MatCreateNest\<close>.\<close>

definition nested :: "MPI_Comm \<Rightarrow> nat \<Rightarrow> nat \<Rightarrow> Mat list \<Rightarrow> world \<Rightarrow> world" where
  "nested cm nr nc subs w =
     w\<lparr>pending := tl (pending w), calls := calls w @ [CallMatCreateNest cm nr nc subs],
       objs := (objs w)(fresh w := Some (nest_object cm nr nc subs)),
       fresh := Suc (fresh w)\<rparr>"

text \<open>
  What the \<^verbatim>\<open>Consistent\<close> state of section 4.4 guarantees and the statements below
  need: every cell holds a block, every handle of the object was handed out by the
  backend, and the aggregate is a native object of its own, none of the blocks.
\<close>

definition Consistent :: "BlockSparseMatrix \<Rightarrow> world \<Rightarrow> bool" where
  "Consistent bm w \<longleftrightarrow>
     all_cells_assigned bm \<and> allocated w (petsc_nest_matrix bm) \<and>
     petsc_nest_matrix bm \<noteq> None \<and>
     (\<forall>r \<in> {0..<n_block_rows bm}. \<forall>c \<in> {0..<n_block_cols bm}.
        allocated w (cell_matrix bm r c) \<and> cell_matrix bm r c \<noteq> petsc_nest_matrix bm)"

definition block_object :: "nat \<Rightarrow> nat \<Rightarrow> 64 word \<Rightarrow> MatObject" where
  "block_object gr gc nz =
     (new_object (Comm 0))\<lparr>local_rows := gr, local_cols := gc, global_rows := gr,
        global_cols := gc, mat_type := MATMPIAIJ, nz_used := nz, assembled := True\<rparr>"

definition scenario_world :: world where
  "scenario_world =
     world0\<lparr>objs := (\<lambda>h. if h = 0 then Some (block_object 3 3 5)
                          else if h = 1 then Some (block_object 4 4 7) else None),
            fresh := 2\<rparr>"

definition scenario_grid :: BlockSparseMatrix where
  "scenario_grid =
     \<lparr>sub_objects = (\<lambda>r c. if r = 0 \<and> c = 0 then Some \<lparr>matrix = Some 0\<rparr>
                           else if r = 1 \<and> c = 1 then Some \<lparr>matrix = Some 1\<rparr> else None),
      row_block_indices = BlockIndices_reinit 2 0,
      column_block_indices = BlockIndices_reinit 2 0,
      petsc_nest_matrix = None\<rparr>"

definition scenario_run :: "(error + BlockSparseMatrix) \<times> world" where
  "scenario_run = collect_sizes scenario_grid scenario_world"

definition empty_run :: "(error + BlockSparseMatrix) \<times> world" where
  "empty_run = bnd (reinit 0 0 empty_matrix) collect_sizes world0"

definition scenario_rerun :: "(error + BlockSparseMatrix) \<times> world" where
  "scenario_rerun = collect_sizes (projr (fst scenario_run)) (snd scenario_run)"

definition mismatch_grid :: BlockSparseMatrix where
  "mismatch_grid =
     \<lparr>sub_objects = (\<lambda>r c. if r = 0 \<and> c = 0 then Some \<lparr>matrix = Some 0\<rparr>
                           else if r = 0 \<and> c = 1 then Some \<lparr>matrix = Some 1\<rparr> else None),
      row_block_indices = BlockIndices_reinit 1 0,
      column_block_indices = BlockIndices_reinit 2 0,
      petsc_nest_matrix = None\<rparr>"

definition scenario_rerun2 :: "(error + BlockSparseMatrix) \<times> world" where
  "scenario_rerun2 = collect_sizes (projr (fst scenario_rerun)) (snd scenario_rerun)"

definition comm_world :: world where
  "comm_world =
     world0\<lparr>objs := (\<lambda>h. if h = 0 then Some (nest_object (Comm 1) 0 0 []) else None),
            fresh := 1\<rparr>"

definition synchronized_matrix :: BlockSparseMatrix where
  "synchronized_matrix = empty_matrix\<lparr>petsc_nest_matrix := Some 0\<rparr>"

definition example_bdsp :: BlockDynamicSparsityPattern where
  "example_bdsp =
     \<lparr>bdsp_n_block_rows = 1, bdsp_n_block_cols = 2,
      bdsp_sub_objects = (\<lambda>r c. if c = 0 then \<lparr>n_rows = 2, n_cols = 2, n_nonzero_entries = 3\<rparr>
                                 else \<lparr>n_rows = 2, n_cols = 3, n_nonzero_entries = 1\<rparr>)\<rparr>"

definition example_rows :: "IndexSet list" where
  "example_rows = [\<lparr>index_space_size = 2, n_elements = 2\<rparr>]"

definition good_cols :: "IndexSet list" where
  "good_cols = [\<lparr>index_space_size = 2, n_elements = 2\<rparr>, \<lparr>index_space_size = 3, n_elements = 3\<rparr>]"

definition bad_cols :: "IndexSet list" where
  "bad_cols = [\<lparr>index_space_size = 2, n_elements = 2\<rparr>, \<lparr>index_space_size = 5, n_elements = 5\<rparr>]"

definition bad_partition_run :: "(error + BlockSparseMatrix) \<times> world" where
  "bad_partition_run = reinit_partition example_rows bad_cols example_bdsp (Comm 0) empty_matrix world0"

definition assigned_matrix :: BlockSparseMatrix where
  "assigned_matrix = operator_assign (projr (fst scenario_run)) mismatch_grid"

definition assigned_run :: "(error + BlockSparseMatrix) \<times> world" where
  "assigned_run = collect_sizes assigned_matrix (snd scenario_run)"

definition good_partition_run :: "(error + BlockSparseMatrix) \<times> world" where
  "good_partition_run =
     reinit_sizes [\<lparr>index_space_size = 2, n_elements = 2\<rparr>]
       \<lparr>bdsp_n_block_rows = 1, bdsp_n_block_cols = 1,
        bdsp_sub_objects = (\<lambda>r c. \<lparr>n_rows = 2, n_cols = 2, n_nonzero_entries = 3\<rparr>)\<rparr>
       (Comm 0) empty_matrix world0"

text \<open>
  The handle \<open>h\<close> names a native block as \<^verbatim>\<open>SparseMatrix::reinit\<close> leaves it: an
  assembled \<^verbatim>\<open>MATMPIAIJ\<close> matrix.
\<close>

definition block_created :: "world \<Rightarrow> nat \<Rightarrow> bool" where
  "block_created w h =
     (case objs w h of None \<Rightarrow> False | Some ob \<Rightarrow> mat_type ob = MATMPIAIJ \<and> assembled ob)"

text \<open>
  From \<open>w\<close> to \<open>w'\<close> the backend has handed out exactly \<open>k\<close> new handles, each of a
  created block, has left the older objects alone, and has no error left to report.
\<close>

definition grown :: "world \<Rightarrow> nat \<Rightarrow> world \<Rightarrow> bool" where
  "grown w k w' \<longleftrightarrow>
     pending w' = [] \<and> fresh w' = fresh w + k \<and>
     (\<forall>h. h < fresh w \<longrightarrow> objs w' h = objs w h) \<and>
     (\<forall>j. j < k \<longrightarrow> block_created w' (fresh w + j))"

section \<open>Basic facts about the model\<close>

lemma bnd_Inr: "bnd m f w = (Inr y, w') \<longleftrightarrow> (\<exists>x w1. m w = (Inr x, w1) \<and> f x w1 = (Inr y, w'))"
  by (auto simp: bnd_def split: prod.splits sum.splits)

lemma ret_Inr: "ret x w = (Inr y, w') \<longleftrightarrow> y = x \<and> w' = w"
  by (auto simp: ret_def)

lemma AssertThrow_Inr: "AssertThrow call w = (Inr u, w') \<longleftrightarrow> call w = (0, w')"
  by (auto simp: AssertThrow_def split: prod.splits if_splits)

lemma AssertThrow_out_Inr: "AssertThrow_out call w = (Inr x, w') \<longleftrightarrow> call w = ((0, x), w')"
  by (auto simp: AssertThrow_out_def split: prod.splits if_splits)

lemma native_update_ok:
  "native_update c A f w = (0, w') \<longleftrightarrow>
     next_status w = 0 \<and> w' = update_object A f (w\<lparr>pending := tl (pending w), calls := calls w @ [c]\<rparr>)"
  by (auto simp: native_update_def native_def)

lemma MatCreate_ok:
  "MatCreate cm w = ((0, A), w') \<longleftrightarrow>
     next_status w = 0 \<and> A = Some (fresh w) \<and>
     w' = w\<lparr>pending := tl (pending w), calls := calls w @ [CallMatCreate cm],
            objs := (objs w)(fresh w := Some (new_object cm)), fresh := Suc (fresh w)\<rparr>"
  by (auto simp: MatCreate_def native_def)

lemma update_object_at:
  "objs w h = Some ob \<Longrightarrow> update_object (Some h) f w = w\<lparr>objs := (objs w)(h := Some (f ob))\<rparr>"
  by (simp add: update_object_def)

lemma native_step:
  assumes "bnd (AssertThrow (native_update c (Some h) f)) k w = (Inr y, w')"
    and "objs w h = Some ob"
  shows "k () (w\<lparr>pending := tl (pending w), calls := calls w @ [c],
                objs := (objs w)(h := Some (f ob))\<rparr>) = (Inr y, w')"
  using assms by (auto simp: bnd_Inr AssertThrow_Inr native_update_ok update_object_at)

lemma create_step:
  assumes "bnd (AssertThrow_out (MatCreate cm)) k w = (Inr y, w')"
  shows "k (Some (fresh w)) (w\<lparr>pending := tl (pending w), calls := calls w @ [CallMatCreate cm],
            objs := (objs w)(fresh w := Some (new_object cm)), fresh := Suc (fresh w)\<rparr>) = (Inr y, w')"
  using assms by (auto simp: bnd_Inr AssertThrow_out_Inr MatCreate_ok)

lemma create_dummy_mat_ok:
  assumes "create_dummy_mat cm lr gr lc gc w = (Inr A, w')"
  shows "A = Some (fresh w) \<and>
         w' = w\<lparr>pending := drop 9 (pending w),
                calls := calls w @ dummy_calls cm (Some (fresh w)) lr gr lc gc,
                objs := (objs w)(fresh w := Some (dummy_object cm lr gr lc gc)),
                fresh := Suc (fresh w)\<rparr>"
  using assms unfolding create_dummy_mat_def MatSetSizes_def MatSetType_def
      MatSeqAIJSetPreallocation_def
      MatMPIAIJSetPreallocation_def MatSetUp_def MatSetOption_def MatAssemblyBegin_def
      MatAssemblyEnd_def
  apply -
  apply (drule create_step)
  apply (drule native_step, simp, simp)
  apply (drule native_step, simp, simp)
  apply (drule native_step, simp, simp)
  apply (drule native_step, simp, simp)
  apply (drule native_step, simp, simp)
  apply (drule native_step, simp, simp)
  apply (drule native_step, simp, simp)
  apply (drule native_step, simp, simp)
  apply (simp add: ret_Inr dummy_object_def dummy_calls_def new_object_def drop_Suc numeral_eq_Suc)
  done

lemma fill_cell_Some:
  "sub_objects bm r c = Some b \<Longrightarrow> fill_cell s r c bm w = (Inr bm, w)"
  by (simp add: fill_cell_def ret_def)

lemma MatDestroy_ok:
  "MatDestroy (Some h) w = ((0, A), w') \<longleftrightarrow>
     next_status w = 0 \<and> A = None \<and>
     w' = release h (w\<lparr>pending := tl (pending w), calls := calls w @ [CallMatDestroy (Some h)]\<rparr>)"
  by (auto simp: MatDestroy_def native_def)

lemma fill_cell_None:
  assumes "sub_objects bm r c = None" and "fill_cell s r c bm w = (Inr bm', w')"
  shows "bm' = set_block r c (Some \<lparr>matrix = Some (fresh w)\<rparr>) bm \<and>
         w' = w\<lparr>pending := drop 10 (pending w),
                calls := calls w @ dummy_calls (comm s) (Some (fresh w)) (row_local_sizes s ! r)
                    (row_sizes s ! r) (col_local_sizes s ! c) (col_sizes s ! c)
                    @ [CallMatDestroy (Some (fresh w))],
                objs := (objs w)(fresh w := Some (dummy_object (comm s) (row_local_sizes s ! r)
                    (row_sizes s ! r) (col_local_sizes s ! c) (col_sizes s ! c))),
                fresh := Suc (fresh w)\<rparr>"
proof -
  from assms obtain A w1 b w2 u w3 where
    c: "create_dummy_mat (comm s) (row_local_sizes s ! r) (row_sizes s ! r)
          (col_local_sizes s ! c) (col_sizes s ! c) w = (Inr A, w1)"
    and a: "SparseMatrix_adopt A w1 = (Inr b, w2)"
    and d: "MatDestroy A w2 = ((0, u), w3)"
    and r: "bm' = set_block r c (Some b) bm" "w' = w3"
    by (auto simp: fill_cell_def bnd_Inr ret_Inr AssertThrow_out_Inr)
  note c' = create_dummy_mat_ok[OF c]
  from a c' have b: "b = \<lparr>matrix = Some (fresh w)\<rparr>"
    and w2: "w2 = w1\<lparr>objs := (objs w1)(fresh w := Some ((dummy_object (comm s) (row_local_sizes s ! r)
                    (row_sizes s ! r) (col_local_sizes s ! c) (col_sizes s ! c))\<lparr>refct := Suc (Suc 0)\<rparr>))\<rparr>"
    by (auto simp: SparseMatrix_adopt_def update_object_def dummy_object_def new_object_def)
  from d c' have "w3 = release (fresh w) (w2\<lparr>pending := tl (pending w2), calls := calls w2 @ [CallMatDestroy (Some (fresh w))]\<rparr>)"
    by (simp add: MatDestroy_ok)
  then have "w3 = w\<lparr>pending := drop 10 (pending w),
                calls := calls w @ dummy_calls (comm s) (Some (fresh w)) (row_local_sizes s ! r)
                    (row_sizes s ! r) (col_local_sizes s ! c) (col_sizes s ! c)
                    @ [CallMatDestroy (Some (fresh w))],
                objs := (objs w)(fresh w := Some (dummy_object (comm s) (row_local_sizes s ! r)
                    (row_sizes s ! r) (col_local_sizes s ! c) (col_sizes s ! c))),
                fresh := Suc (fresh w)\<rparr>"
    unfolding w2 using c'
    by (simp add: release_def dummy_object_def new_object_def drop_Suc numeral_eq_Suc tl_drop)
  with r b show ?thesis by simp
qed

lemma filled_refl: "filled s bm w {} bm w"
  by (simp add: filled_def)

lemma filled_step:
  assumes f: "filled s bm w D bm1 w1" and nd: "(r, c) \<notin> D"
    and st: "fill_cell s r c bm1 w1 = (Inr bm2, w2)"
  shows "filled s bm w (insert (r, c) D) bm2 w2"
proof (cases "sub_objects bm1 r c")
  case (Some b)
  with st have "bm2 = bm1" "w2 = w1" by (simp_all add: fill_cell_Some)
  moreover from f nd Some have "sub_objects bm r c \<noteq> None"
    unfolding filled_def by (metis option.distinct(1))
  ultimately show ?thesis using f unfolding filled_def by auto
next
  case None
  note fc = fill_cell_None[OF None st]
  from f nd None have init: "sub_objects bm r c = None"
    unfolding filled_def by metis
  show ?thesis
    unfolding filled_def
  proof (intro conjI allI)
    fix r' c'
    show "if (r', c') \<in> insert (r, c) D \<and> sub_objects bm r' c' = None
       then \<exists>h\<ge>fresh w. h < fresh w2 \<and> sub_objects bm2 r' c' = Some \<lparr>matrix = Some h\<rparr> \<and>
              objs w2 h = Some (dummy_object (comm s) (row_local_sizes s ! r') (row_sizes s ! r')
                   (col_local_sizes s ! c') (col_sizes s ! c'))
       else sub_objects bm2 r' c' = sub_objects bm r' c'"
    proof (cases "(r', c') = (r, c)")
      case True
      with init fc f show ?thesis
        by (auto simp: filled_def set_block_def intro!: exI[of _ "fresh w1"])
    next
      case False
      have cell: "sub_objects bm2 r' c' = sub_objects bm1 r' c'"
        using False fc by (auto simp: set_block_def)
      from f have old: "if (r', c') \<in> D \<and> sub_objects bm r' c' = None
       then \<exists>h\<ge>fresh w. h < fresh w1 \<and> sub_objects bm1 r' c' = Some \<lparr>matrix = Some h\<rparr> \<and>
              objs w1 h = Some (dummy_object (comm s) (row_local_sizes s ! r') (row_sizes s ! r')
                   (col_local_sizes s ! c') (col_sizes s ! c'))
       else sub_objects bm1 r' c' = sub_objects bm r' c'"
        unfolding filled_def by blast
      show ?thesis
      proof (cases "(r', c') \<in> D \<and> sub_objects bm r' c' = None")
        case True
        with old obtain h where "fresh w \<le> h" "h < fresh w1"
          "sub_objects bm1 r' c' = Some \<lparr>matrix = Some h\<rparr>"
          "objs w1 h = Some (dummy_object (comm s) (row_local_sizes s ! r') (row_sizes s ! r')
                   (col_local_sizes s ! c') (col_sizes s ! c'))" by auto
        with True cell fc show ?thesis
          by (auto intro!: exI[of _ h])
      next
        case False2: False
        with old False cell show ?thesis by auto
      qed
    qed
  qed (use f fc in \<open>auto simp: filled_def set_block_def\<close>)
qed

lemma for_each_inv_aux:
  assumes step: "\<And>pre x post a w a' w'. xs = pre @ x # post \<Longrightarrow> I pre a w \<Longrightarrow>
      body x a w = (Inr a', w') \<Longrightarrow> I (pre @ [x]) a' w'"
  shows "for_each ys body a w = (Inr a', w') \<Longrightarrow> I pre a w \<Longrightarrow> xs = pre @ ys \<Longrightarrow> I xs a' w'"
proof (induction ys arbitrary: pre a w)
  case Nil
  then show ?case by simp
next
  case (Cons y ys)
  from Cons.prems(1) obtain a1 w1 where b: "body y a w = (Inr a1, w1)"
    and r: "for_each ys body a1 w1 = (Inr a', w')"
    by (auto split: prod.splits sum.splits)
  from step[OF Cons.prems(3) Cons.prems(2) b] have "I (pre @ [y]) a1 w1" .
  from Cons.IH[OF r this] Cons.prems(3) show ?case by simp
qed

lemma for_each_inv:
  assumes "for_each xs body a w = (Inr a', w')" and "I [] a w"
    and "\<And>pre x post a w a' w'. xs = pre @ x # post \<Longrightarrow> I pre a w \<Longrightarrow>
      body x a w = (Inr a', w') \<Longrightarrow> I (pre @ [x]) a' w'"
  shows "I xs a' w'"
  using for_each_inv_aux[of xs I body xs a w a' w' "[]"] assms by blast

lemma fill_row:
  assumes l: "for_each [0..<n] (fill_cell s r) bm1 w1 = (Inr bm2, w2)"
    and f: "filled s bm w D bm1 w1" and nd: "\<And>c. (r, c) \<notin> D"
  shows "filled s bm w (D \<union> {r} \<times> {0..<n}) bm2 w2"
proof -
  have "filled s bm w (D \<union> {r} \<times> set [0..<n]) bm2 w2"
  proof (rule for_each_inv[OF l, where I = "\<lambda>pre. filled s bm w (D \<union> {r} \<times> set pre)"])
    show "filled s bm w (D \<union> {r} \<times> set []) bm1 w1" using f by simp
  next
    fix pre x post a v a' v'
    assume xs: "[0..<n] = pre @ x # post"
      and i: "filled s bm w (D \<union> {r} \<times> set pre) a v"
      and b: "fill_cell s r x a v = (Inr a', v')"
    have "distinct (pre @ x # post)" using xs distinct_upt by metis
    then have "x \<notin> set pre" by simp
    with nd have "(r, x) \<notin> D \<union> {r} \<times> set pre" by auto
    have "D \<union> {r} \<times> set (pre @ [x]) = insert (r, x) (D \<union> {r} \<times> set pre)" by auto
    with filled_step[OF i \<open>(r, x) \<notin> D \<union> {r} \<times> set pre\<close> b]
    show "filled s bm w (D \<union> {r} \<times> set (pre @ [x])) a' v'" by simp
  qed
  then show ?thesis by simp
qed

lemma fill_all:
  assumes l: "for_each [0..<m] (\<lambda>r. for_each [0..<n] (fill_cell s r)) bm w = (Inr bm1, w1)"
  shows "filled s bm w ({0..<m} \<times> {0..<n}) bm1 w1"
proof -
  have "filled s bm w (set [0..<m] \<times> {0..<n}) bm1 w1"
  proof (rule for_each_inv[OF l, where I = "\<lambda>pre. filled s bm w (set pre \<times> {0..<n})"])
    show "filled s bm w (set [] \<times> {0..<n}) bm w" by (simp add: filled_refl)
  next
    fix pre x post a v a' v'
    assume xs: "[0..<m] = pre @ x # post"
      and i: "filled s bm w (set pre \<times> {0..<n}) a v"
      and b: "for_each [0..<n] (fill_cell s x) a v = (Inr a', v')"
    have "distinct (pre @ x # post)" using xs distinct_upt by metis
    then have "x \<notin> set pre" by simp
    then have "\<And>c. (x, c) \<notin> set pre \<times> {0..<n}" by auto
    have "set (pre @ [x]) \<times> {0..<n} = set pre \<times> {0..<n} \<union> {x} \<times> {0..<n}" by auto
    with fill_row[OF b i \<open>\<And>c. (x, c) \<notin> set pre \<times> {0..<n}\<close>]
    show "filled s bm w (set (pre @ [x]) \<times> {0..<n}) a' v'" by simp
  qed
  then show ?thesis by simp
qed

lemma fold_proj_unchanged:
  "(\<And>x s. x \<in> set xs \<Longrightarrow> p (f x s) = p s) \<Longrightarrow> p (fold f xs s) = p s"
  by (induction xs arbitrary: s) auto

lemma upt_split: "k < n \<Longrightarrow> [0..<n] = [0..<k] @ k # [Suc k..<n]"
  by (metis upt_conv_Cons upt_add_eq_append le0 less_imp_le_nat le_add_diff_inverse plus_nat.add_0)

lemma scan_cell_lengths:
  "length (row_sizes (scan_cell w bm r c s)) = length (row_sizes s) \<and>
   length (col_sizes (scan_cell w bm r c s)) = length (col_sizes s) \<and>
   length (row_local_sizes (scan_cell w bm r c s)) = length (row_local_sizes s) \<and>
   length (col_local_sizes (scan_cell w bm r c s)) = length (col_local_sizes s)"
  by (simp add: scan_cell_def split: option.splits)

lemma scan_row_lengths:
  "scan_lengths (fold (scan_cell w bm r) cs s) = scan_lengths s"
  by (rule fold_proj_unchanged) (simp add: scan_lengths_def scan_cell_lengths)

lemma scan_rows_lengths:
  "scan_lengths (fold (\<lambda>r. fold (scan_cell w bm r) cs) rs s) = scan_lengths s"
  by (rule fold_proj_unchanged) (simp add: scan_row_lengths)

lemma scan_init_lengths: "scan_lengths (scan_init m n) = (m, n, m, n)"
  by (simp add: scan_lengths_def scan_init_def)

lemma row_entry_other:
  "r' \<noteq> r \<or> sub_objects bm r' c = None \<Longrightarrow> row_entry r (scan_cell w bm r' c s) = row_entry r s"
  by (cases "r' = r") (auto simp: row_entry_def scan_cell_def split: option.splits)

lemma col_entry_other:
  "c' \<noteq> c \<or> sub_objects bm r c' = None \<Longrightarrow> col_entry c (scan_cell w bm r c' s) = col_entry c s"
  by (cases "c' = c") (auto simp: col_entry_def scan_cell_def split: option.splits)

lemma row_entry_rows_other:
  "(\<And>r' c. r' \<in> set rs \<Longrightarrow> c \<in> set cs \<Longrightarrow> r' \<noteq> r \<or> sub_objects bm r' c = None) \<Longrightarrow>
   row_entry r (fold (\<lambda>r. fold (scan_cell w bm r) cs) rs s) = row_entry r s"
  by (rule fold_proj_unchanged, rule fold_proj_unchanged) (simp add: row_entry_other)

lemma col_entry_rows_other:
  "(\<And>r c'. r \<in> set rs \<Longrightarrow> c' \<in> set cs \<Longrightarrow> c' \<noteq> c \<or> sub_objects bm r c' = None) \<Longrightarrow>
   col_entry c (fold (\<lambda>r. fold (scan_cell w bm r) cs) rs s) = col_entry c s"
  by (rule fold_proj_unchanged, rule fold_proj_unchanged) (simp add: col_entry_other)

lemma row_entry_hit:
  "sub_objects bm r c = Some b \<Longrightarrow> scan_lengths s = (m, n, m, n) \<Longrightarrow> r < m \<Longrightarrow>
   row_entry r (scan_cell w bm r c s) = (MatrixBase_m w b, MatrixBase_local_size w b)"
  by (simp add: row_entry_def scan_cell_def scan_lengths_def)

lemma col_entry_hit:
  "sub_objects bm r c = Some b \<Longrightarrow> scan_lengths s = (m, n, m, n) \<Longrightarrow> c < n \<Longrightarrow>
   col_entry c (scan_cell w bm r c s) = (MatrixBase_n w b, MatrixBase_local_domain_size w b)"
  by (simp add: col_entry_def scan_cell_def scan_lengths_def)

lemma scan_row_last:
  assumes r: "r < n_block_rows bm" and c: "c < n_block_cols bm"
    and b: "sub_objects bm r c = Some b"
    and last: "\<And>c'. c < c' \<Longrightarrow> c' < n_block_cols bm \<Longrightarrow> sub_objects bm r c' = None"
  shows "row_entry r (scan_sizes w bm) = (MatrixBase_m w b, MatrixBase_local_size w b)"
proof -
  let ?m = "n_block_rows bm" and ?n = "n_block_cols bm"
  let ?G = "scan_cell w bm r"
  let ?F = "\<lambda>r. fold (scan_cell w bm r) [0..<?n]"
  let ?s1 = "fold ?F [0..<r] (scan_init ?m ?n)"
  let ?s2 = "fold ?G [0..<c] ?s1"
  have l2: "scan_lengths ?s2 = (?m, ?n, ?m, ?n)"
    by (simp add: scan_row_lengths scan_rows_lengths scan_init_lengths)
  have "scan_sizes w bm = fold ?F [Suc r..<?m] (?F r ?s1)"
    unfolding scan_sizes_def by (subst upt_split[OF r]) simp
  also have "row_entry r \<dots> = row_entry r (?F r ?s1)"
    by (rule row_entry_rows_other) auto
  also have "?F r ?s1 = fold ?G [Suc c..<?n] (?G c ?s2)"
    by (subst upt_split[OF c]) simp
  also have "row_entry r \<dots> = row_entry r (?G c ?s2)"
    by (rule fold_proj_unchanged) (simp add: row_entry_other last)
  also have "\<dots> = (MatrixBase_m w b, MatrixBase_local_size w b)"
    by (rule row_entry_hit[OF b l2 r])
  finally show ?thesis by simp
qed

lemma scan_col_last:
  assumes r: "r < n_block_rows bm" and c: "c < n_block_cols bm"
    and b: "sub_objects bm r c = Some b"
    and last: "\<And>r'. r < r' \<Longrightarrow> r' < n_block_rows bm \<Longrightarrow> sub_objects bm r' c = None"
  shows "col_entry c (scan_sizes w bm) = (MatrixBase_n w b, MatrixBase_local_domain_size w b)"
proof -
  let ?m = "n_block_rows bm" and ?n = "n_block_cols bm"
  let ?G = "scan_cell w bm r"
  let ?F = "\<lambda>r. fold (scan_cell w bm r) [0..<?n]"
  let ?s1 = "fold ?F [0..<r] (scan_init ?m ?n)"
  let ?s2 = "fold ?G [0..<c] ?s1"
  have l2: "scan_lengths ?s2 = (?m, ?n, ?m, ?n)"
    by (simp add: scan_row_lengths scan_rows_lengths scan_init_lengths)
  have "scan_sizes w bm = fold ?F [Suc r..<?m] (?F r ?s1)"
    unfolding scan_sizes_def by (subst upt_split[OF r]) simp
  also have "col_entry c \<dots> = col_entry c (?F r ?s1)"
    by (rule col_entry_rows_other) (auto simp: last)
  also have "?F r ?s1 = fold ?G [Suc c..<?n] (?G c ?s2)"
    by (subst upt_split[OF c]) simp
  also have "col_entry c \<dots> = col_entry c (?G c ?s2)"
    by (rule fold_proj_unchanged) (simp add: col_entry_other)
  also have "\<dots> = (MatrixBase_n w b, MatrixBase_local_domain_size w b)"
    by (rule col_entry_hit[OF b l2 c])
  finally show ?thesis by simp
qed

lemma scan_row_none:
  assumes r: "r < n_block_rows bm"
    and none: "\<And>c. c < n_block_cols bm \<Longrightarrow> sub_objects bm r c = None"
  shows "row_entry r (scan_sizes w bm) = (0, 0)"
proof -
  have "row_entry r (scan_sizes w bm) = row_entry r (scan_init (n_block_rows bm) (n_block_cols bm))"
    unfolding scan_sizes_def by (rule row_entry_rows_other) (simp add: none)
  then show ?thesis using r by (simp add: row_entry_def scan_init_def)
qed

lemma scan_col_none:
  assumes c: "c < n_block_cols bm"
    and none: "\<And>r. r < n_block_rows bm \<Longrightarrow> sub_objects bm r c = None"
  shows "col_entry c (scan_sizes w bm) = (0, 0)"
proof -
  have "col_entry c (scan_sizes w bm) = col_entry c (scan_init (n_block_rows bm) (n_block_cols bm))"
    unfolding scan_sizes_def by (rule col_entry_rows_other) (simp add: none)
  then show ?thesis using c by (simp add: col_entry_def scan_init_def)
qed

lemma block_Inr:
  "block bm r c = Inr b \<longleftrightarrow> r < n_block_rows bm \<and> c < n_block_cols bm \<and> sub_objects bm r c = Some b"
  by (auto simp: block_def split: option.splits)

lemma read_loop_Inr:
  assumes "for_each xs (\<lambda>x acc. bnd (lift_result (blk x)) (\<lambda>b w. (Inr (g acc (f w b)), w))) acc w
           = (Inr res, w')"
  shows "w' = w \<and> (\<forall>x \<in> set xs. \<exists>b. blk x = Inr b) \<and>
         res = fold (\<lambda>x acc. g acc (case blk x of Inl e \<Rightarrow> d | Inr b \<Rightarrow> f w b)) xs acc"
  using assms
proof (induction xs arbitrary: acc)
  case Nil
  then show ?case by simp
next
  case (Cons x xs)
  from Cons.prems obtain b where b: "blk x = Inr b"
    and r: "for_each xs (\<lambda>x acc. bnd (lift_result (blk x)) (\<lambda>b w. (Inr (g acc (f w b)), w)))
              (g acc (f w b)) w = (Inr res, w')"
    by (cases "blk x") (auto simp: bnd_def lift_result_def)
  from Cons.IH[OF r] b show ?case by simp
qed

lemma read_loop_total:
  assumes "\<And>x. x \<in> set xs \<Longrightarrow> \<exists>b. blk x = Inr b"
  shows "for_each xs (\<lambda>x acc. bnd (lift_result (blk x)) (\<lambda>b w. (Inr (g acc (f w b)), w))) acc w
         = (Inr (fold (\<lambda>x acc. g acc (case blk x of Inl e \<Rightarrow> d | Inr b \<Rightarrow> f w b)) xs acc), w)"
  using assms
proof (induction xs arbitrary: acc)
  case Nil
  then show ?case by simp
next
  case (Cons x xs)
  from Cons.prems obtain b where b: "blk x = Inr b" by auto
  with Cons show ?case by (simp add: bnd_def lift_result_def)
qed

lemma fold_snoc_map: "fold (\<lambda>x acc. acc @ [h x]) xs acc = acc @ map h xs"
  by (induction xs arbitrary: acc) auto

lemma fold_plus_sum_list:
  "fold (\<lambda>x (acc :: 'a :: comm_monoid_add). acc + h x) xs acc = acc + sum_list (map h xs)"
  by (induction xs arbitrary: acc) (auto simp: add.assoc)

lemma case_block_eq:
  "block bm r c = Inr b \<Longrightarrow>
   (case block bm r c of Inl e \<Rightarrow> d | Inr b \<Rightarrow> f b) =
   (case sub_objects bm r c of None \<Rightarrow> d | Some b \<Rightarrow> f b)"
  unfolding block_def by (auto split: if_splits option.splits)


lemma base_collect_sizes_Inr:
  assumes "BlockMatrixBase_collect_sizes bm w = (Inr bm', w')"
  shows "w' = w \<and>
         bm' = bm\<lparr>row_block_indices :=
                    BlockIndices_reinit_sizes (map (\<lambda>r. cell_m w bm r 0) [0..<n_block_rows bm]),
                  column_block_indices :=
                    BlockIndices_reinit_sizes (map (\<lambda>c. cell_n w bm 0 c) [0..<n_block_cols bm])\<rparr>"
proof -
  from assms obtain rs w1 cs w2 where
    r: "for_each [0..<n_block_rows bm]
            (\<lambda>r szs. bnd (lift_result (block bm r 0))
                       (\<lambda>b w. (Inr (szs @ [MatrixBase_m w b]), w))) [] w = (Inr rs, w1)"
    and c: "for_each [0..<n_block_cols bm]
            (\<lambda>c szs. bnd (lift_result (block bm 0 c))
                       (\<lambda>b w. (Inr (szs @ [MatrixBase_n w b]), w))) [] w1 = (Inr cs, w2)"
    and res: "bm' = bm\<lparr>row_block_indices := BlockIndices_reinit_sizes rs,
              column_block_indices := BlockIndices_reinit_sizes cs\<rparr>" "w' = w2"
    unfolding BlockMatrixBase_collect_sizes_def by (auto simp: bnd_Inr ret_Inr)
  note r' = read_loop_Inr[where blk = "\<lambda>r. block bm r 0" and g = "\<lambda>acc v. acc @ [v]"
      and f = MatrixBase_m and d = 0, OF r]
  have rs: "rs = map (\<lambda>r. cell_m w bm r 0) [0..<n_block_rows bm]"
  proof -
    have "rs = [] @ map (\<lambda>r. case block bm r 0 of Inl e \<Rightarrow> 0 | Inr b \<Rightarrow> MatrixBase_m w b)
                   [0..<n_block_rows bm]"
      using r' by (simp only: fold_snoc_map)
    also have "\<dots> = map (\<lambda>r. cell_m w bm r 0) [0..<n_block_rows bm]"
    proof (simp only: append_Nil, rule map_cong[OF refl])
      fix x assume "x \<in> set [0..<n_block_rows bm]"
      with r' obtain b where "block bm x 0 = Inr b" by blast
      then show "(case block bm x 0 of Inl e \<Rightarrow> 0 | Inr b \<Rightarrow> MatrixBase_m w b) = cell_m w bm x 0"
        unfolding cell_m_def by (rule case_block_eq)
    qed
    finally show ?thesis .
  qed
  from r' have w1: "w1 = w" by simp
  note c' = read_loop_Inr[where blk = "\<lambda>c. block bm 0 c" and g = "\<lambda>acc v. acc @ [v]"
      and f = MatrixBase_n and d = 0, OF c]
  have cs: "cs = map (\<lambda>c. cell_n w bm 0 c) [0..<n_block_cols bm]"
  proof -
    have "cs = [] @ map (\<lambda>c. case block bm 0 c of Inl e \<Rightarrow> 0 | Inr b \<Rightarrow> MatrixBase_n w1 b)
                   [0..<n_block_cols bm]"
      using c' by (simp only: fold_snoc_map)
    also have "\<dots> = map (\<lambda>c. cell_n w bm 0 c) [0..<n_block_cols bm]"
    proof (simp only: append_Nil w1, rule map_cong[OF refl])
      fix x assume "x \<in> set [0..<n_block_cols bm]"
      with c' obtain b where "block bm 0 x = Inr b" by blast
      then show "(case block bm 0 x of Inl e \<Rightarrow> 0 | Inr b \<Rightarrow> MatrixBase_n w b) = cell_n w bm 0 x"
        unfolding cell_n_def by (rule case_block_eq)
    qed
    finally show ?thesis .
  qed
  from c' w1 res rs cs show ?thesis by simp
qed

lemma n_nonzero_elements_total:
  assumes "all_cells_assigned bm"
  shows "n_nonzero_elements bm w =
     (Inr (\<Sum>r<n_block_rows bm. \<Sum>c<n_block_cols bm. cell_nonzero_count w bm r c), w)"
proof -
  let ?n = "n_block_cols bm" and ?m = "n_block_rows bm"
  have inner: "for_each [0..<?n] (\<lambda>cols n_nonzero.
         bnd (lift_result (block bm r cols))
           (\<lambda>b w. (Inr (n_nonzero + MatrixBase_n_nonzero_elements w b), w))) acc w
       = (Inr (acc + (\<Sum>c<?n. cell_nonzero_count w bm r c)), w)" if r: "r < ?m" for r acc
  proof -
    have ex: "\<And>c. c \<in> set [0..<?n] \<Longrightarrow> \<exists>b. block bm r c = Inr b"
      using assms r by (auto simp: block_Inr all_cells_assigned_def)
    have "map (\<lambda>x. case block bm r x of Inl e \<Rightarrow> 0 | Inr b \<Rightarrow> MatrixBase_n_nonzero_elements w b) [0..<?n]
          = map (\<lambda>c. cell_nonzero_count w bm r c) [0..<?n]"
    proof (rule map_cong[OF refl])
      fix x assume "x \<in> set [0..<?n]"
      with ex obtain b where "block bm r x = Inr b" by blast
      then show "(case block bm r x of Inl e \<Rightarrow> 0 | Inr b \<Rightarrow> MatrixBase_n_nonzero_elements w b)
          = cell_nonzero_count w bm r x"
        unfolding cell_nonzero_count_def by (rule case_block_eq)
    qed
    then have "fold (\<lambda>x acc. acc + (case block bm r x of Inl e \<Rightarrow> 0 | Inr b \<Rightarrow> MatrixBase_n_nonzero_elements w b))
            [0..<?n] acc = acc + sum_list (map (\<lambda>c. cell_nonzero_count w bm r c) [0..<?n])"
      by (simp only: fold_plus_sum_list)
    also have "sum_list (map (\<lambda>c. cell_nonzero_count w bm r c) [0..<?n])
               = (\<Sum>c<?n. cell_nonzero_count w bm r c)"
      by (simp add: interv_sum_list_conv_sum_set_nat lessThan_atLeast0)
    finally show ?thesis
      using read_loop_total[where blk = "block bm r" and g = "(+)" and d = 0
          and f = MatrixBase_n_nonzero_elements and acc = acc and w = w and xs = "[0..<?n]", OF ex] by simp
  qed
  have outer: "set rs \<subseteq> {..<?m} \<Longrightarrow> for_each rs (\<lambda>rows.
       for_each [0..<?n] (\<lambda>cols n_nonzero.
         bnd (lift_result (block bm rows cols))
           (\<lambda>b w. (Inr (n_nonzero + MatrixBase_n_nonzero_elements w b), w)))) acc w
     = (Inr (acc + sum_list (map (\<lambda>r. \<Sum>c<?n. cell_nonzero_count w bm r c) rs)), w)" for rs acc
    by (induction rs arbitrary: acc) (simp_all add: inner add.assoc)
  have "sum_list (map (\<lambda>r. \<Sum>c<?n. cell_nonzero_count w bm r c) [0..<?m])
        = (\<Sum>r<?m. \<Sum>c<?n. cell_nonzero_count w bm r c)"
    by (simp add: interv_sum_list_conv_sum_set_nat lessThan_atLeast0)
  moreover have "set [0..<?m] \<subseteq> {..<?m}" by auto
  ultimately show ?thesis
    unfolding n_nonzero_elements_def using outer[of "[0..<?m]" 0] by simp
qed


lemma cell_index_less: "r < m \<Longrightarrow> c < n \<Longrightarrow> r * n + c < m * (n::nat)"
proof -
  assume r: "r < m" and c: "c < n"
  have "r * n + c < r * n + n" using c by simp
  also have "\<dots> = Suc r * n" by simp
  also have "\<dots> \<le> m * n" using r by (intro mult_le_mono1) simp
  finally show ?thesis .
qed

lemma cell_index_inj:
  assumes c: "c < n" and c': "c' < n" and e: "r * n + c = r' * n + (c'::nat)"
  shows "r = r' \<and> c = c'"
proof -
  from c have d1: "(r * n + c) div n = r" by simp
  from c' have d2: "(r' * n + c') div n = r'" by simp
  from d1 d2 e have rr: "r = r'" by metis
  with e have "c = c'" by simp
  with rr show ?thesis by simp
qed

lemma fold_length_unchanged:
  "(\<And>x s. x \<in> set xs \<Longrightarrow> length (f x s) = length s) \<Longrightarrow> length (fold f xs s) = length s"
  by (rule fold_proj_unchanged[where p = length])

lemma fold_nth_unchanged:
  "(\<And>x s. x \<in> set xs \<Longrightarrow> f x s ! i = s ! i) \<Longrightarrow> fold f xs s ! i = s ! i"
  by (rule fold_proj_unchanged[where p = "\<lambda>s. s ! i"])

lemma psub_objects_length: "length (psub_objects bm m n) = m * n"
proof -
  have "length (fold (\<lambda>r. fold (\<lambda>c ps. ps[r * n + c := cell_matrix bm r c]) [0..<n]) [0..<m]
       (replicate (m * n) None)) = length (replicate (m * n) (None :: Mat))"
    by (rule fold_length_unchanged, rule fold_length_unchanged) simp
  then show ?thesis by (simp add: psub_objects_def)
qed

lemma psub_objects_nth:
  assumes r: "r < m" and c: "c < n"
  shows "psub_objects bm m n ! (r * n + c) = cell_matrix bm r c"
proof -
  let ?G = "\<lambda>r c ps. ps[r * n + c := cell_matrix bm r c]"
  let ?F = "\<lambda>r. fold (?G r) [0..<n]"
  let ?s0 = "replicate (m * n) (None :: Mat)"
  let ?s1 = "fold ?F [0..<r] ?s0"
  let ?s2 = "fold (?G r) [0..<c] ?s1"
  have "length ?s1 = length ?s0"
    by (rule fold_length_unchanged, rule fold_length_unchanged) simp
  moreover have "length ?s2 = length ?s1"
    by (rule fold_length_unchanged) simp
  ultimately have l2: "r * n + c < length ?s2" using cell_index_less[OF r c] by simp
  have "psub_objects bm m n = fold ?F [Suc r..<m] (?F r ?s1)"
    unfolding psub_objects_def by (subst upt_split[OF r]) simp
  then have "psub_objects bm m n ! (r * n + c) = fold ?F [Suc r..<m] (?F r ?s1) ! (r * n + c)"
    by simp
  also have "\<dots> = ?F r ?s1 ! (r * n + c)"
  proof (rule fold_nth_unchanged, rule fold_nth_unchanged)
    fix r' c' and ps :: "Mat list"
    assume "r' \<in> set [Suc r..<m]" "c' \<in> set [0..<n]"
    then have "c' < n" "r' \<noteq> r" by simp_all
    with cell_index_inj[of c' n c r' r] c have "r' * n + c' \<noteq> r * n + c" by blast
    then show "ps[r' * n + c' := cell_matrix bm r' c'] ! (r * n + c) = ps ! (r * n + c)"
      by simp
  qed
  also have "?F r ?s1 = fold (?G r) [Suc c..<n] (?G r c ?s2)"
    by (subst upt_split[OF c]) simp
  also have "\<dots> ! (r * n + c) = ?G r c ?s2 ! (r * n + c)"
  proof (rule fold_nth_unchanged)
    fix c' and ps :: "Mat list"
    assume "c' \<in> set [Suc c..<n]"
    then have "r * n + c' \<noteq> r * n + c" by simp
    then show "ps[r * n + c' := cell_matrix bm r c'] ! (r * n + c) = ps ! (r * n + c)"
      by simp
  qed
  also have "\<dots> = cell_matrix bm r c" using l2 by simp
  finally show ?thesis .
qed

lemma destroy_matrix_Inr:
  "AssertThrow_out (destroy_matrix A) w = (Inr A', w') \<longleftrightarrow>
     (A = None \<or> next_status w = 0) \<and> A' = None \<and> w' = destroyed A w"
  by (cases A) (auto simp: AssertThrow_out_def destroy_matrix_def MatDestroy_def destroyed_def
      native_def split: if_splits)

lemma MatCreateNest_Inr:
  "AssertThrow_out (MatCreateNest cm m n subs) w = (Inr A, w') \<longleftrightarrow>
     next_status w = 0 \<and> A = Some (fresh w) \<and> w' = nested cm m n subs w"
  by (auto simp: AssertThrow_out_def MatCreateNest_def nested_def native_def split: if_splits)

lemma psub_objects_cong:
  "sub_objects bm' = sub_objects bm \<Longrightarrow> psub_objects bm' m n = psub_objects bm m n"
  by (simp add: psub_objects_def cell_matrix_def)

lemma fresh_destroyed: "fresh (destroyed A w) = fresh w"
  by (simp add: destroyed_def release_def split: option.splits)

lemma collect_sizes_Inr:
  assumes "collect_sizes bm w = (Inr bm', w')"
  shows "\<exists>bm1 w1.
     filled (scan_sizes w bm) bm w ({0..<n_block_rows bm} \<times> {0..<n_block_cols bm}) bm1 w1 \<and>
     (petsc_nest_matrix bm = None \<or> next_status w1 = 0) \<and>
     next_status (destroyed (petsc_nest_matrix bm) w1) = 0 \<and>
     bm' = bm1\<lparr>row_block_indices :=
                 BlockIndices_reinit_sizes (map (\<lambda>r. cell_m w1 bm1 r 0) [0..<n_block_rows bm]),
               column_block_indices :=
                 BlockIndices_reinit_sizes (map (\<lambda>c. cell_n w1 bm1 0 c) [0..<n_block_cols bm]),
               petsc_nest_matrix := Some (fresh w1)\<rparr> \<and>
     w' = nested (comm (scan_sizes w bm)) (n_block_rows bm) (n_block_cols bm)
            (psub_objects bm1 (n_block_rows bm) (n_block_cols bm))
            (destroyed (petsc_nest_matrix bm) w1)"
proof -
  let ?m = "n_block_rows bm" and ?n = "n_block_cols bm" and ?s = "scan_sizes w bm"
  from assms obtain bm1 w1 bm2 w2 A w3 A' where
    f: "for_each [0..<?m] (\<lambda>r. for_each [0..<?n] (\<lambda>c. fill_cell ?s r c)) bm w = (Inr bm1, w1)"
    and b: "BlockMatrixBase_collect_sizes bm1 w1 = (Inr bm2, w2)"
    and d: "AssertThrow_out (destroy_matrix (petsc_nest_matrix bm2)) w2 = (Inr A, w3)"
    and n: "AssertThrow_out (MatCreateNest (comm ?s) ?m ?n (psub_objects bm2 ?m ?n)) w3 = (Inr A', w')"
    and r: "bm' = bm2\<lparr>petsc_nest_matrix := A'\<rparr>"
    unfolding collect_sizes_def Let_def by (auto simp: bnd_Inr ret_Inr)
  note fl = fill_all[OF f]
  then have same: "row_block_indices bm1 = row_block_indices bm"
    "column_block_indices bm1 = column_block_indices bm"
    "petsc_nest_matrix bm1 = petsc_nest_matrix bm"
    by (simp_all add: filled_def)
  then have mn: "n_block_rows bm1 = ?m" "n_block_cols bm1 = ?n"
    by (simp_all add: n_block_rows_def n_block_cols_def)
  note b' = base_collect_sizes_Inr[OF b, unfolded mn]
  from b' have sub2: "sub_objects bm2 = sub_objects bm1" "petsc_nest_matrix bm2 = petsc_nest_matrix bm"
    using same by simp_all
  from d have d': "petsc_nest_matrix bm = None \<or> next_status w1 = 0"
    "w3 = destroyed (petsc_nest_matrix bm) w1"
    using b' sub2 by (simp_all add: destroy_matrix_Inr)
  from n have n': "next_status w3 = 0" "A' = Some (fresh w3)"
    "w' = nested (comm ?s) ?m ?n (psub_objects bm2 ?m ?n) w3"
    by (simp_all add: MatCreateNest_Inr)
  have ps: "psub_objects bm2 ?m ?n = psub_objects bm1 ?m ?n"
    by (rule psub_objects_cong[OF sub2(1)])
  show ?thesis
    apply (rule exI[of _ bm1], rule exI[of _ w1])
    using fl d' n' r b' ps by (simp add: fresh_destroyed)
qed

lemma filled_assigned:
  assumes "filled s bm w ({0..<m} \<times> {0..<n}) bm1 w1" and "r < m" and "c < n"
  shows "sub_objects bm1 r c \<noteq> None"
proof (cases "sub_objects bm r c")
  case None
  with assms have "\<exists>h. sub_objects bm1 r c = Some \<lparr>matrix = Some h\<rparr>"
    unfolding filled_def by (metis (no_types, lifting) SigmaI atLeastLessThan_iff le0)
  then show ?thesis by auto
next
  case (Some b)
  with assms have "sub_objects bm1 r c = sub_objects bm r c"
    unfolding filled_def by (metis option.distinct(1))
  with Some show ?thesis by simp
qed

lemma collect_sizes_shape:
  assumes "collect_sizes bm w = (Inr bm', w')"
  shows "n_block_rows bm' = n_block_rows bm \<and> n_block_cols bm' = n_block_cols bm"
  using collect_sizes_Inr[OF assms]
  by (auto simp: n_block_rows_def n_block_cols_def BlockIndices_size_def BlockIndices_reinit_sizes_def)

lemma collect_sizes_assigned:
  assumes "collect_sizes bm w = (Inr bm', w')"
  shows "all_cells_assigned bm'"
proof -
  from collect_sizes_Inr[OF assms] obtain bm1 w1 where
    f: "filled (scan_sizes w bm) bm w ({0..<n_block_rows bm} \<times> {0..<n_block_cols bm}) bm1 w1"
    and s: "sub_objects bm' = sub_objects bm1" by auto
  show ?thesis
    unfolding all_cells_assigned_def using collect_sizes_shape[OF assms] filled_assigned[OF f] s
    by simp
qed

lemma objs_destroyed_other: "A \<noteq> Some h \<Longrightarrow> objs (destroyed A w) h = objs w h"
  by (auto simp: destroyed_def release_def split: option.splits)

lemma objs_nested_other: "h \<noteq> fresh w \<Longrightarrow> objs (nested cm m n subs w) h = objs w h"
  by (simp add: nested_def)

lemma objs_nested_new:
  "objs (nested cm m n subs w) (fresh w) = Some (nest_object cm m n subs)"
  by (simp add: nested_def)

lemma collect_sizes_placeholder:
  assumes ok: "collect_sizes bm w = (Inr bm', w')"
    and al: "allocated w (petsc_nest_matrix bm)"
    and r: "r < n_block_rows bm" and c: "c < n_block_cols bm"
    and null: "sub_objects bm r c = None"
  shows "\<exists>h. sub_objects bm' r c = Some \<lparr>matrix = Some h\<rparr> \<and> fresh w \<le> h \<and>
             objs w' h = Some (dummy_object (comm (scan_sizes w bm))
                (row_local_sizes (scan_sizes w bm) ! r) (row_sizes (scan_sizes w bm) ! r)
                (col_local_sizes (scan_sizes w bm) ! c) (col_sizes (scan_sizes w bm) ! c))"
proof -
  let ?s = "scan_sizes w bm"
  from collect_sizes_Inr[OF ok] obtain bm1 w1 where
    f: "filled ?s bm w ({0..<n_block_rows bm} \<times> {0..<n_block_cols bm}) bm1 w1"
    and s: "sub_objects bm' = sub_objects bm1"
    and w': "w' = nested (comm ?s) (n_block_rows bm) (n_block_cols bm)
            (psub_objects bm1 (n_block_rows bm) (n_block_cols bm))
            (destroyed (petsc_nest_matrix bm) w1)" by auto
  from f r c null obtain h where h: "fresh w \<le> h" "h < fresh w1"
    "sub_objects bm1 r c = Some \<lparr>matrix = Some h\<rparr>"
    "objs w1 h = Some (dummy_object (comm ?s) (row_local_sizes ?s ! r) (row_sizes ?s ! r)
        (col_local_sizes ?s ! c) (col_sizes ?s ! c))"
    unfolding filled_def by (metis (no_types, lifting) SigmaI atLeastLessThan_iff le0)
  from al h(1) have "petsc_nest_matrix bm \<noteq> Some h"
    by (auto simp: allocated_def)
  then have "objs w' h = objs w1 h"
    using h(2) unfolding w' by (simp add: objs_nested_other fresh_destroyed objs_destroyed_other)
  with h s show ?thesis by auto
qed

lemma reads_of_object:
  assumes "objs w h = Some ob"
  shows "MatrixBase_m w \<lparr>matrix = Some h\<rparr> = global_rows ob"
    and "MatrixBase_n w \<lparr>matrix = Some h\<rparr> = global_cols ob"
    and "MatrixBase_local_size w \<lparr>matrix = Some h\<rparr> = local_rows ob"
    and "MatrixBase_local_domain_size w \<lparr>matrix = Some h\<rparr> = local_cols ob"
    and "MatrixBase_n_nonzero_elements w \<lparr>matrix = Some h\<rparr> = nz_used ob"
    and "MatrixBase_get_mpi_communicator w \<lparr>matrix = Some h\<rparr> = obj_comm ob"
  using assms
  by (simp_all add: MatrixBase_m_def MatrixBase_n_def MatrixBase_local_size_def
      MatrixBase_local_domain_size_def MatrixBase_n_nonzero_elements_def
      MatrixBase_get_mpi_communicator_def PetscObjectComm_def lookup_def)

lemma reinit_0_0:
  "\<exists>bm1 w1. reinit 0 0 bm w = (Inr bm1, w1) \<and> n_block_rows bm1 = 0 \<and> n_block_cols bm1 = 0"
  by (simp add: reinit_def clear_def bnd_def ret_def Let_def n_block_rows_def n_block_cols_def
      BlockIndices_size_def BlockIndices_reinit_def split: prod.splits)

lemma bnd_for_each_Nil: "bnd (for_each [] body a) f = f a"
  by (rule ext) (simp add: bnd_def)

lemma bnd_ret: "bnd (ret x) f = f x"
  by (rule ext) (simp add: bnd_def ret_def)

lemma collect_sizes_0_0:
  assumes "n_block_rows bm = 0" and "n_block_cols bm = 0"
  shows "collect_sizes bm w =
     bnd (AssertThrow_out (destroy_matrix (petsc_nest_matrix bm))) (\<lambda>nest.
     bnd (AssertThrow_out (MatCreateNest MPI_COMM_NULL 0 0 [])) (\<lambda>nest1.
     ret (bm\<lparr>row_block_indices := BlockIndices_reinit_sizes [],
             column_block_indices := BlockIndices_reinit_sizes [],
             petsc_nest_matrix := nest1\<rparr>))) w"
  using assms
  by (simp add: collect_sizes_def scan_sizes_def scan_init_def BlockMatrixBase_collect_sizes_def
      psub_objects_def bnd_for_each_Nil bnd_ret)

lemma calls_destroyed: "calls (destroyed A w) = calls w @ [CallMatDestroy A]"
  by (auto simp: destroyed_def release_def split: option.splits)

lemma objs_destroyed_None: "objs (destroyed None w) = objs w"
  by (simp add: destroyed_def)

lemma objs_destroyed_same:
  "objs w h = Some ob \<Longrightarrow>
   objs (destroyed (Some h) w) h = (if refct ob \<le> 1 then None else Some (ob\<lparr>refct := refct ob - 1\<rparr>))"
  by (simp add: destroyed_def release_def)

lemma cell_matrix_cong:
  "sub_objects bm' = sub_objects bm \<Longrightarrow> cell_matrix bm' r c = cell_matrix bm r c"
  by (simp add: cell_matrix_def)

lemma collect_sizes_nest:
  assumes ok: "collect_sizes bm w = (Inr bm', w')"
  shows "\<exists>h subs pre.
     petsc_nest_matrix bm' = Some h \<and> fresh w \<le> h \<and> fresh w' = Suc h \<and>
     objs w' h = Some (nest_object (comm (scan_sizes w bm)) (n_block_rows bm') (n_block_cols bm') subs) \<and>
     length subs = n_block_rows bm' * n_block_cols bm' \<and>
     (\<forall>r c. r < n_block_rows bm' \<and> c < n_block_cols bm' \<longrightarrow>
        subs ! (r * n_block_cols bm' + c) = cell_matrix bm' r c) \<and>
     calls w' = pre @ [CallMatDestroy (petsc_nest_matrix bm),
                       CallMatCreateNest (comm (scan_sizes w bm)) (n_block_rows bm')
                         (n_block_cols bm') subs] \<and>
     (\<forall>h0 ob. petsc_nest_matrix bm = Some h0 \<and> h0 < fresh w \<and> objs w h0 = Some ob \<longrightarrow>
        objs w' h0 = (if refct ob \<le> 1 then None else Some (ob\<lparr>refct := refct ob - 1\<rparr>))) \<and>
     (\<forall>h0. petsc_nest_matrix bm \<noteq> Some h0 \<and> h0 < fresh w \<longrightarrow> objs w' h0 = objs w h0)"
proof -
  let ?s = "scan_sizes w bm" and ?m = "n_block_rows bm" and ?n = "n_block_cols bm"
  from collect_sizes_Inr[OF ok] obtain bm1 w1 where
    f: "filled ?s bm w ({0..<?m} \<times> {0..<?n}) bm1 w1"
    and s: "sub_objects bm' = sub_objects bm1" and nst: "petsc_nest_matrix bm' = Some (fresh w1)"
    and w': "w' = nested (comm ?s) ?m ?n (psub_objects bm1 ?m ?n)
            (destroyed (petsc_nest_matrix bm) w1)" by auto
  note sh = collect_sizes_shape[OF ok]
  from f have fr: "fresh w \<le> fresh w1" and old: "\<And>h. h < fresh w \<Longrightarrow> objs w1 h = objs w h"
    by (simp_all add: filled_def)
  let ?subs = "psub_objects bm1 ?m ?n"
  have 1: "objs w' (fresh w1) = Some (nest_object (comm ?s) ?m ?n ?subs)"
    unfolding w' by (simp add: nested_def fresh_destroyed)
  have 2: "fresh w' = Suc (fresh w1)"
    unfolding w' by (simp add: nested_def fresh_destroyed)
  have 3: "calls w' = calls w1 @ [CallMatDestroy (petsc_nest_matrix bm),
                       CallMatCreateNest (comm ?s) ?m ?n ?subs]"
    unfolding w' by (simp add: nested_def calls_destroyed)
  have 4: "\<forall>r c. r < ?m \<and> c < ?n \<longrightarrow> ?subs ! (r * ?n + c) = cell_matrix bm' r c"
    by (simp add: psub_objects_nth cell_matrix_cong[OF s])
  have 5: "\<forall>h0 ob. petsc_nest_matrix bm = Some h0 \<and> h0 < fresh w \<and> objs w h0 = Some ob \<longrightarrow>
        objs w' h0 = (if refct ob \<le> 1 then None else Some (ob\<lparr>refct := refct ob - 1\<rparr>))"
  proof (intro allI impI, elim conjE)
    fix h0 ob assume a: "petsc_nest_matrix bm = Some h0" "h0 < fresh w" "objs w h0 = Some ob"
    then have "objs w1 h0 = Some ob" using old by simp
    moreover have "h0 \<noteq> fresh (destroyed (Some h0) w1)" using a fr by (simp add: fresh_destroyed)
    ultimately show "objs w' h0 = (if refct ob \<le> 1 then None else Some (ob\<lparr>refct := refct ob - 1\<rparr>))"
      unfolding w' a(1) by (simp add: objs_nested_other objs_destroyed_same)
  qed
  have 6: "\<forall>h0. petsc_nest_matrix bm \<noteq> Some h0 \<and> h0 < fresh w \<longrightarrow> objs w' h0 = objs w h0"
  proof (intro allI impI, elim conjE)
    fix h0 assume a: "petsc_nest_matrix bm \<noteq> Some h0" "h0 < fresh w"
    then have "h0 \<noteq> fresh (destroyed (petsc_nest_matrix bm) w1)"
      using fr by (simp add: fresh_destroyed)
    then show "objs w' h0 = objs w h0"
      unfolding w' using a old by (simp add: objs_nested_other objs_destroyed_other)
  qed
  show ?thesis
    apply (rule exI[of _ "fresh w1"], rule exI[of _ ?subs], rule exI[of _ "calls w1"])
    using nst fr 1 2 3 4 5 6 sh by (simp add: psub_objects_length)
qed

lemma for_each_total:
  assumes "P a w"
    and "\<And>x a w. x \<in> set xs \<Longrightarrow> P a w \<Longrightarrow> \<exists>a' w'. body x a w = (Inr a', w') \<and> P a' w'"
  shows "\<exists>a' w'. for_each xs body a w = (Inr a', w') \<and> P a' w'"
  using assms
proof (induction xs arbitrary: a w)
  case Nil
  then show ?case by simp
next
  case (Cons x xs)
  from Cons.prems(2)[of x a w] Cons.prems(1) obtain a1 w1 where
    b: "body x a w = (Inr a1, w1)" and p: "P a1 w1" by auto
  from Cons.IH[OF p] Cons.prems(2) obtain a' w' where
    "for_each xs body a1 w1 = (Inr a', w')" "P a' w'" by auto
  with b show ?case by simp
qed

lemma create_dummy_mat_total:
  assumes "pending w = []"
  shows "\<exists>A w'. create_dummy_mat cm lr gr lc gc w = (Inr A, w') \<and> pending w' = []"
  using assms
  by (simp add: create_dummy_mat_def bnd_def AssertThrow_def AssertThrow_out_def MatCreate_def
      MatSetSizes_def MatSetType_def MatSeqAIJSetPreallocation_def MatMPIAIJSetPreallocation_def
      MatSetUp_def MatSetOption_def MatAssemblyBegin_def MatAssemblyEnd_def
      native_update_def native_def next_status_def update_object_def ret_def)

lemma fill_cell_total:
  assumes "pending w = []"
  shows "\<exists>bm' w'. fill_cell s r c bm w = (Inr bm', w') \<and> pending w' = []"
proof (cases "sub_objects bm r c")
  case (Some b)
  with assms show ?thesis by (simp add: fill_cell_Some)
next
  case None
  from create_dummy_mat_total[OF assms] obtain A w1 where
    c: "create_dummy_mat (comm s) (row_local_sizes s ! r) (row_sizes s ! r)
          (col_local_sizes s ! c) (col_sizes s ! c) w = (Inr A, w1)"
    and p: "pending w1 = []" by blast
  from create_dummy_mat_ok[OF c] have A: "A = Some (fresh w)" by simp
  have p2: "pending (update_object A (\<lambda>ob. ob\<lparr>refct := Suc (refct ob)\<rparr>) w1) = []"
    using p by (simp add: update_object_def split: option.splits)
  show ?thesis
    using None c p2 unfolding A
    by (simp add: fill_cell_def bnd_def SparseMatrix_adopt_def AssertThrow_out_def
        MatDestroy_def native_def next_status_def release_def ret_def split: option.splits)
qed

lemma base_collect_sizes_total:
  assumes a: "all_cells_assigned bm"
    and s: "n_block_rows bm = 0 \<longleftrightarrow> n_block_cols bm = 0"
  shows "\<exists>bm'. BlockMatrixBase_collect_sizes bm w = (Inr bm', w)"
proof -
  have r: "\<And>x. x \<in> set [0..<n_block_rows bm] \<Longrightarrow> \<exists>b. block bm x 0 = Inr b"
    using a s by (auto simp: block_Inr all_cells_assigned_def)
  have c: "\<And>x. x \<in> set [0..<n_block_cols bm] \<Longrightarrow> \<exists>b. block bm 0 x = Inr b"
    using a s by (auto simp: block_Inr all_cells_assigned_def)
  show ?thesis
    unfolding BlockMatrixBase_collect_sizes_def
    using read_loop_total[where blk = "\<lambda>r. block bm r 0" and g = "\<lambda>acc v. acc @ [v]"
        and f = MatrixBase_m and d = 0 and xs = "[0..<n_block_rows bm]" and acc = "[]" and w = w, OF r]
      read_loop_total[where blk = "\<lambda>c. block bm 0 c" and g = "\<lambda>acc v. acc @ [v]"
        and f = MatrixBase_n and d = 0 and xs = "[0..<n_block_cols bm]" and acc = "[]" and w = w, OF c]
    by (simp add: bnd_def ret_def)
qed

lemma pending_destroyed: "pending w = [] \<Longrightarrow> pending (destroyed A w) = []"
  by (auto simp: destroyed_def release_def split: option.splits)

lemma next_status_Nil: "pending w = [] \<Longrightarrow> next_status w = 0"
  by (simp add: next_status_def)

lemma collect_sizes_total:
  assumes p: "pending w = []"
    and s: "n_block_rows bm = 0 \<longleftrightarrow> n_block_cols bm = 0"
  shows "\<exists>bm' w'. collect_sizes bm w = (Inr bm', w') \<and> pending w' = []"
proof -
  let ?m = "n_block_rows bm" and ?n = "n_block_cols bm" and ?s = "scan_sizes w bm"
  have row: "\<exists>a' w'. for_each [0..<?n] (fill_cell ?s r) a v = (Inr a', w') \<and> pending w' = []"
    if "pending v = []" for r a v
    by (rule for_each_total[where P = "\<lambda>a w. pending w = []", OF that]) (rule fill_cell_total)
  have "\<exists>a' w'. for_each [0..<?m] (\<lambda>r. for_each [0..<?n] (fill_cell ?s r)) bm w = (Inr a', w')
          \<and> pending w' = []"
    by (rule for_each_total[where P = "\<lambda>a w. pending w = []", OF p]) (rule row)
  then obtain bm1 w1 where
    f: "for_each [0..<?m] (\<lambda>r. for_each [0..<?n] (fill_cell ?s r)) bm w = (Inr bm1, w1)"
    and p1: "pending w1 = []" by blast
  note fl = fill_all[OF f]
  then have mn: "n_block_rows bm1 = ?m" "n_block_cols bm1 = ?n"
    by (simp_all add: filled_def n_block_rows_def n_block_cols_def)
  have "all_cells_assigned bm1"
    unfolding all_cells_assigned_def mn using filled_assigned[OF fl] by simp
  from base_collect_sizes_total[OF this, of w1] s mn obtain bm2 where
    b: "BlockMatrixBase_collect_sizes bm1 w1 = (Inr bm2, w1)" by auto
  have d: "AssertThrow_out (destroy_matrix (petsc_nest_matrix bm2)) w1
           = (Inr None, destroyed (petsc_nest_matrix bm2) w1)"
    using p1 by (simp add: destroy_matrix_Inr next_status_Nil)
  let ?w2 = "destroyed (petsc_nest_matrix bm2) w1"
  have p2: "pending ?w2 = []" using p1 by (rule pending_destroyed)
  have n: "AssertThrow_out (MatCreateNest (comm ?s) ?m ?n (psub_objects bm2 ?m ?n)) ?w2
           = (Inr (Some (fresh ?w2)), nested (comm ?s) ?m ?n (psub_objects bm2 ?m ?n) ?w2)"
    using p2 by (simp add: MatCreateNest_Inr next_status_Nil)
  have "pending (nested (comm ?s) ?m ?n (psub_objects bm2 ?m ?n) ?w2) = []"
    using p2 by (simp add: nested_def)
  then show ?thesis
    unfolding collect_sizes_def Let_def by (simp add: bnd_def f b d n ret_def)
qed

lemma base_collect_sizes_shape:
  assumes "BlockMatrixBase_collect_sizes bm w = (Inr bm', w')"
  shows "n_block_rows bm = 0 \<longleftrightarrow> n_block_cols bm = 0"
proof -
  from assms obtain rs w1 cs w2 where
    r: "for_each [0..<n_block_rows bm]
            (\<lambda>r szs. bnd (lift_result (block bm r 0))
                       (\<lambda>b w. (Inr (szs @ [MatrixBase_m w b]), w))) [] w = (Inr rs, w1)"
    and c: "for_each [0..<n_block_cols bm]
            (\<lambda>c szs. bnd (lift_result (block bm 0 c))
                       (\<lambda>b w. (Inr (szs @ [MatrixBase_n w b]), w))) [] w1 = (Inr cs, w2)"
    unfolding BlockMatrixBase_collect_sizes_def by (auto simp: bnd_Inr ret_Inr)
  note r' = read_loop_Inr[where blk = "\<lambda>r. block bm r 0" and g = "\<lambda>acc v. acc @ [v]"
      and f = MatrixBase_m and d = 0, OF r]
  note c' = read_loop_Inr[where blk = "\<lambda>c. block bm 0 c" and g = "\<lambda>acc v. acc @ [v]"
      and f = MatrixBase_n and d = 0, OF c]
  have a: "0 < n_block_cols bm" if "0 < n_block_rows bm"
  proof -
    from r' have "\<forall>x\<in>set [0..<n_block_rows bm]. \<exists>b. block bm x 0 = Inr b" by simp
    moreover have "0 \<in> set [0..<n_block_rows bm]" using that by simp
    ultimately obtain b where "block bm 0 0 = Inr b" by blast
    then show ?thesis by (simp add: block_Inr)
  qed
  have b: "0 < n_block_rows bm" if "0 < n_block_cols bm"
  proof -
    from c' have "\<forall>x\<in>set [0..<n_block_cols bm]. \<exists>b. block bm 0 x = Inr b" by simp
    moreover have "0 \<in> set [0..<n_block_cols bm]" using that by simp
    ultimately obtain b where "block bm 0 0 = Inr b" by blast
    then show ?thesis by (simp add: block_Inr)
  qed
  show ?thesis
  proof (cases "n_block_rows bm = 0")
    case True
    with b show ?thesis by (cases "n_block_cols bm = 0") auto
  next
    case False
    with a show ?thesis by auto
  qed
qed

lemma collect_sizes_shape_ok:
  assumes "collect_sizes bm w = (Inr bm', w')"
  shows "n_block_rows bm = 0 \<longleftrightarrow> n_block_cols bm = 0"
proof -
  let ?m = "n_block_rows bm" and ?n = "n_block_cols bm" and ?s = "scan_sizes w bm"
  from assms obtain bm1 w1 bm2 w2 where
    f: "for_each [0..<?m] (\<lambda>r. for_each [0..<?n] (\<lambda>c. fill_cell ?s r c)) bm w = (Inr bm1, w1)"
    and b: "BlockMatrixBase_collect_sizes bm1 w1 = (Inr bm2, w2)"
    unfolding collect_sizes_def Let_def by (auto simp: bnd_Inr ret_Inr)
  from fill_all[OF f] have "n_block_rows bm1 = ?m" "n_block_cols bm1 = ?n"
    by (simp_all add: filled_def n_block_rows_def n_block_cols_def)
  with base_collect_sizes_shape[OF b] show ?thesis by simp
qed

lemma scan_cell_cong:
  assumes "sub_objects bm' r c = sub_objects bm r c"
    and "lookup w' (cell_matrix bm r c) = lookup w (cell_matrix bm r c)"
  shows "scan_cell w' bm' r c = scan_cell w bm r c"
  using assms
  by (auto simp: scan_cell_def cell_matrix_def petsc_matrix_def MatrixBase_m_def MatrixBase_n_def
      MatrixBase_local_size_def MatrixBase_local_domain_size_def
      MatrixBase_get_mpi_communicator_def PetscObjectComm_def fun_eq_iff split: option.splits)

lemma scan_sizes_cong:
  assumes s: "sub_objects bm' = sub_objects bm"
    and m: "n_block_rows bm' = n_block_rows bm" and n: "n_block_cols bm' = n_block_cols bm"
    and l: "\<And>r c. r < n_block_rows bm \<Longrightarrow> c < n_block_cols bm \<Longrightarrow>
              lookup w' (cell_matrix bm r c) = lookup w (cell_matrix bm r c)"
  shows "scan_sizes w' bm' = scan_sizes w bm"
proof -
  have inner: "fold (scan_cell w' bm' r) [0..<n_block_cols bm]
               = fold (scan_cell w bm r) [0..<n_block_cols bm]" if "r < n_block_rows bm" for r
  proof (rule ext, rule fold_cong[OF refl refl])
    fix c assume "c \<in> set [0..<n_block_cols bm]"
    then have "c < n_block_cols bm" by simp
    with that show "scan_cell w' bm' r c = scan_cell w bm r c"
      by (intro scan_cell_cong) (simp_all add: s l)
  qed
  show ?thesis
    unfolding scan_sizes_def m n by (rule fold_cong[OF refl refl]) (simp add: inner)
qed

lemma cell_reads_cong:
  assumes "sub_objects bm' r c = sub_objects bm r c"
    and "lookup w' (cell_matrix bm r c) = lookup w (cell_matrix bm r c)"
  shows "cell_m w' bm' r c = cell_m w bm r c"
    and "cell_n w' bm' r c = cell_n w bm r c"
    and "cell_nonzero_count w' bm' r c = cell_nonzero_count w bm r c"
  using assms
  by (auto simp: cell_m_def cell_n_def cell_nonzero_count_def cell_matrix_def petsc_matrix_def
      MatrixBase_m_def MatrixBase_n_def MatrixBase_n_nonzero_elements_def split: option.splits)

lemma lookup_other:
  assumes "allocated w A" and "A \<noteq> N" and "\<And>h. h < fresh w \<Longrightarrow> N \<noteq> Some h \<Longrightarrow> objs w' h = objs w h"
  shows "lookup w' A = lookup w A"
  using assms by (cases A) (auto simp: lookup_def allocated_def)

lemma collect_sizes_Consistent:
  assumes c: "Consistent bm w" and ok: "collect_sizes bm w = (Inr bm', w')"
  shows "Consistent bm' w'"
    and "sub_objects bm' = sub_objects bm"
    and "n_block_rows bm' = n_block_rows bm" and "n_block_cols bm' = n_block_cols bm"
    and "\<And>r c. r < n_block_rows bm \<Longrightarrow> c < n_block_cols bm \<Longrightarrow>
           lookup w' (cell_matrix bm r c) = lookup w (cell_matrix bm r c)"
    and "lookup w' (petsc_nest_matrix bm') =
           Some (nest_object (comm (scan_sizes w bm)) (n_block_rows bm) (n_block_cols bm)
                   (psub_objects bm (n_block_rows bm) (n_block_cols bm)))"
    and "row_block_indices bm' =
           BlockIndices_reinit_sizes (map (\<lambda>r. cell_m w bm r 0) [0..<n_block_rows bm])"
    and "column_block_indices bm' =
           BlockIndices_reinit_sizes (map (\<lambda>c. cell_n w bm 0 c) [0..<n_block_cols bm])"
proof -
  let ?s = "scan_sizes w bm" and ?m = "n_block_rows bm" and ?n = "n_block_cols bm"
  from collect_sizes_Inr[OF ok] obtain bm1 w1 where
    f: "filled ?s bm w ({0..<?m} \<times> {0..<?n}) bm1 w1"
    and bm': "bm' = bm1\<lparr>row_block_indices :=
                 BlockIndices_reinit_sizes (map (\<lambda>r. cell_m w1 bm1 r 0) [0..<?m]),
               column_block_indices :=
                 BlockIndices_reinit_sizes (map (\<lambda>c. cell_n w1 bm1 0 c) [0..<?n]),
               petsc_nest_matrix := Some (fresh w1)\<rparr>"
    and w': "w' = nested (comm ?s) ?m ?n (psub_objects bm1 ?m ?n)
            (destroyed (petsc_nest_matrix bm) w1)" by auto
  note sh = collect_sizes_shape[OF ok] and sok = collect_sizes_shape_ok[OF ok]
  from c have asg: "\<And>r c. r < ?m \<Longrightarrow> c < ?n \<Longrightarrow> sub_objects bm r c \<noteq> None"
    and alc: "\<And>r c. r < ?m \<Longrightarrow> c < ?n \<Longrightarrow> allocated w (cell_matrix bm r c)"
    and dif: "\<And>r c. r < ?m \<Longrightarrow> c < ?n \<Longrightarrow> cell_matrix bm r c \<noteq> petsc_nest_matrix bm"
    and aln: "allocated w (petsc_nest_matrix bm)"
    by (auto simp: Consistent_def all_cells_assigned_def)
  have s1: "sub_objects bm1 = sub_objects bm"
  proof (intro ext)
    fix r c
    show "sub_objects bm1 r c = sub_objects bm r c"
    proof (cases "sub_objects bm r c")
      case None
      then have "\<not> (r < ?m \<and> c < ?n)" using asg[of r c] by auto
      then have "(r, c) \<notin> {0..<?m} \<times> {0..<?n}" by auto
      with f show ?thesis unfolding filled_def by metis
    next
      case (Some b)
      with f show ?thesis unfolding filled_def by (metis option.distinct(1))
    qed
  qed
  from f have fr: "fresh w \<le> fresh w1" and old: "\<And>h. h < fresh w \<Longrightarrow> objs w1 h = objs w h"
    by (simp_all add: filled_def)
  have keep: "objs w' h = objs w h" if "h < fresh w" "petsc_nest_matrix bm \<noteq> Some h" for h
  proof -
    from that fr have "h \<noteq> fresh (destroyed (petsc_nest_matrix bm) w1)"
      by (simp add: fresh_destroyed)
    then show ?thesis
      unfolding w' using that old by (simp add: objs_nested_other objs_destroyed_other)
  qed
  show s: "sub_objects bm' = sub_objects bm" using s1 bm' by simp
  show m: "n_block_rows bm' = ?m" and n: "n_block_cols bm' = ?n" using sh by simp_all
  show lk: "lookup w' (cell_matrix bm r c) = lookup w (cell_matrix bm r c)"
    if "r < ?m" "c < ?n" for r c
    using alc[OF that] dif[OF that] keep by (rule lookup_other)
  have lk1: "lookup w1 (cell_matrix bm r c) = lookup w (cell_matrix bm r c)"
    if "r < ?m" "c < ?n" for r c
    using alc[OF that] old by (cases "cell_matrix bm r c") (auto simp: lookup_def allocated_def)
  have fw': "fresh w' = Suc (fresh w1)" unfolding w' by (simp add: nested_def fresh_destroyed)
  show "lookup w' (petsc_nest_matrix bm') =
           Some (nest_object (comm ?s) ?m ?n (psub_objects bm ?m ?n))"
    unfolding bm' w'
    by (simp add: lookup_def nested_def fresh_destroyed psub_objects_cong[OF s1])
  show "row_block_indices bm' = BlockIndices_reinit_sizes (map (\<lambda>r. cell_m w bm r 0) [0..<?m])"
  proof -
    have e: "map (\<lambda>r. cell_m w1 bm1 r 0) [0..<?m] = map (\<lambda>r. cell_m w bm r 0) [0..<?m]"
    proof (rule map_cong[OF refl])
      fix r assume "r \<in> set [0..<?m]"
      then have "r < ?m" "0 < ?n" using sok by auto
      then show "cell_m w1 bm1 r 0 = cell_m w bm r 0"
        by (intro cell_reads_cong) (simp_all add: s1 lk1)
    qed
    show ?thesis unfolding bm' e by simp
  qed
  show "column_block_indices bm' = BlockIndices_reinit_sizes (map (\<lambda>c. cell_n w bm 0 c) [0..<?n])"
  proof -
    have e: "map (\<lambda>c. cell_n w1 bm1 0 c) [0..<?n] = map (\<lambda>c. cell_n w bm 0 c) [0..<?n]"
    proof (rule map_cong[OF refl])
      fix c assume "c \<in> set [0..<?n]"
      then have "c < ?n" "0 < ?m" using sok by auto
      then show "cell_n w1 bm1 0 c = cell_n w bm 0 c"
        by (intro cell_reads_cong) (simp_all add: s1 lk1)
    qed
    show ?thesis unfolding bm' e by simp
  qed
  show "Consistent bm' w'"
    unfolding Consistent_def
  proof (intro conjI ballI)
    show "all_cells_assigned bm'" by (rule collect_sizes_assigned[OF ok])
    show "allocated w' (petsc_nest_matrix bm')" unfolding bm' by (simp add: allocated_def fw')
    show "petsc_nest_matrix bm' \<noteq> None" unfolding bm' by simp
  next
    fix r c assume "r \<in> {0..<n_block_rows bm'}" "c \<in> {0..<n_block_cols bm'}"
    then have rc: "r < ?m" "c < ?n" using m n by simp_all
    have cm: "cell_matrix bm' r c = cell_matrix bm r c" by (rule cell_matrix_cong[OF s])
    from alc[OF rc] fr show "allocated w' (cell_matrix bm' r c)"
      unfolding cm by (cases "cell_matrix bm r c") (auto simp: allocated_def fw')
    have nst: "petsc_nest_matrix bm' = Some (fresh w1)" unfolding bm' by simp
    from alc[OF rc] fr show "cell_matrix bm' r c \<noteq> petsc_nest_matrix bm'"
      unfolding cm nst by (cases "cell_matrix bm r c") (auto simp: allocated_def)
  qed
qed

lemma scenario_run_Consistent: "Consistent (projr (fst scenario_run)) (snd scenario_run)"
proof -
  let ?X = "projr (fst scenario_run)" and ?W = "snd scenario_run"
  have sh: "n_block_rows ?X = 2" "n_block_cols ?X = 2" by code_simp+
  have nst: "petsc_nest_matrix ?X = Some 4" "fresh ?W = 5" by code_simp+
  have cm: "cell_matrix ?X 0 0 = Some 0" "cell_matrix ?X 0 (Suc 0) = Some 2"
    "cell_matrix ?X (Suc 0) 0 = Some 3" "cell_matrix ?X (Suc 0) (Suc 0) = Some 1"
    by code_simp+
  have so: "sub_objects ?X 0 0 \<noteq> None" "sub_objects ?X 0 (Suc 0) \<noteq> None"
    "sub_objects ?X (Suc 0) 0 \<noteq> None" "sub_objects ?X (Suc 0) (Suc 0) \<noteq> None"
    by code_simp+
  show ?thesis
    unfolding Consistent_def all_cells_assigned_def sh nst
    using cm so by (auto simp: allocated_def nst dest!: less_2_cases)
qed

lemma for_each_append:
  "for_each (xs @ ys) body a w =
     (case for_each xs body a w of
        (Inl e, w1) \<Rightarrow> (Inl e, w1)
      | (Inr a1, w1) \<Rightarrow> for_each ys body a1 w1)"
  by (induction xs arbitrary: a w) (auto split: prod.splits sum.splits)

lemma reinit_cell_InvalidSize:
  assumes "bdsp_block bdsp r c = Inr pat"
    and "index_space_size (rows ! r) \<noteq> n_rows pat \<or> index_space_size (cols ! c) \<noteq> n_cols pat"
  shows "reinit_cell rows cols bdsp com r c bm w = (Inl InvalidSize, w)"
  using assms by (auto simp: reinit_cell_def bnd_def lift_result_def Assert_def)

lemma unat_sum_no_overflow:
  fixes f :: "nat \<Rightarrow> nat \<Rightarrow> 64 word"
  assumes "(\<Sum>r<m. \<Sum>c<n. unat (f r c)) < 2 ^ 64"
  shows "unat (\<Sum>r<m. \<Sum>c<n. f r c) = (\<Sum>r<m. \<Sum>c<n. unat (f r c))"
proof -
  have "(\<Sum>r<m. \<Sum>c<n. f r c) = of_nat (\<Sum>r<m. \<Sum>c<n. unat (f r c))"
    by (simp add: of_nat_sum)
  then have "unat (\<Sum>r<m. \<Sum>c<n. f r c) = unat (of_nat (\<Sum>r<m. \<Sum>c<n. unat (f r c)) :: 64 word)"
    by simp
  also have "\<dots> = (\<Sum>r<m. \<Sum>c<n. unat (f r c)) mod 2 ^ LENGTH(64)"
    by (rule unat_of_nat)
  also have "\<dots> = (\<Sum>r<m. \<Sum>c<n. unat (f r c))"
    using assms by simp
  finally show ?thesis .
qed

lemma grown_0: "pending w = [] \<Longrightarrow> grown w 0 w"
  by (simp add: grown_def)

lemma grown_trans:
  assumes "grown w k w1" and "grown w1 j w2"
  shows "grown w (k + j) w2"
  unfolding grown_def
proof (intro conjI allI impI)
  show "pending w2 = []" using assms by (simp add: grown_def)
  show "fresh w2 = fresh w + (k + j)" using assms by (simp add: grown_def)
  fix h assume "h < fresh w"
  with assms show "objs w2 h = objs w h" by (simp add: grown_def)
next
  fix i assume i: "i < k + j"
  show "block_created w2 (fresh w + i)"
  proof (cases "i < k")
    case True
    with assms have "block_created w1 (fresh w + i)" "fresh w + i < fresh w1"
      by (simp_all add: grown_def)
    with assms show ?thesis by (simp add: grown_def block_created_def)
  next
    case False
    then have ik: "i - k < j" and e: "fresh w + i = fresh w1 + (i - k)"
      using i assms by (simp_all add: grown_def)
    from assms(2) ik have "block_created w2 (fresh w1 + (i - k))"
      unfolding grown_def by blast
    then show ?thesis unfolding e .
  qed
qed

lemma fold_inv: "P s \<Longrightarrow> (\<And>x s. P s \<Longrightarrow> P (f x s)) \<Longrightarrow> P (fold f xs s)"
  by (induction xs arbitrary: s) auto

lemma destroy_matrix_quiet:
  assumes "pending w = []"
  shows "pending (snd (destroy_matrix A w)) = [] \<and> fresh (snd (destroy_matrix A w)) = fresh w"
  using assms
  by (cases A)
     (auto simp: destroy_matrix_def MatDestroy_def native_def next_status_def release_def
        split: option.splits)

lemma clear_quiet:
  assumes "pending w = []"
  shows "\<exists>bm0 w0. clear bm w = (Inr bm0, w0) \<and> pending w0 = [] \<and> fresh w0 = fresh w"
proof -
  let ?P = "\<lambda>v. pending v = [] \<and> fresh v = fresh w"
  let ?w1 = "fold (\<lambda>r. fold (\<lambda>c. delete_block (sub_objects bm r c)) [0..<n_block_cols bm])
                [0..<n_block_rows bm] w"
  have d: "?P (delete_block p v)" if "?P v" for p v
    using that destroy_matrix_quiet[of v] by (cases p) (simp_all add: delete_block_def)
  have "?P ?w1"
    by (rule fold_inv[where P = ?P], simp add: assms, rule fold_inv[where P = ?P], assumption,
        rule d)
  with destroy_matrix_quiet[of ?w1 "petsc_nest_matrix bm"]
  have q: "pending (snd (destroy_matrix (petsc_nest_matrix bm) ?w1)) = []"
    "fresh (snd (destroy_matrix (petsc_nest_matrix bm) ?w1)) = fresh w" by simp_all
  obtain ierr nest w2 where e: "destroy_matrix (petsc_nest_matrix bm) ?w1 = ((ierr, nest), w2)"
    by (metis prod.exhaust)
  with q have "pending w2 = []" "fresh w2 = fresh w" by simp_all
  then show ?thesis
    using e by (simp add: clear_def Let_def)
qed

lemma bdsp_block_Inr:
  "r < bdsp_n_block_rows bdsp \<Longrightarrow> c < bdsp_n_block_cols bdsp \<Longrightarrow>
   bdsp_block bdsp r c = Inr (bdsp_sub_objects bdsp r c)"
  by (simp add: bdsp_block_def)

lemma size_loop_total:
  assumes "\<And>x. x \<in> set xs \<Longrightarrow> blk x = Inr (pat x)"
  shows "for_each xs (\<lambda>x szs. bnd (lift_result (blk x)) (\<lambda>p. ret (szs @ [f p]))) acc w
         = (Inr (acc @ map (\<lambda>x. f (pat x)) xs), w)"
  using assms
  by (induction xs arbitrary: acc) (simp_all add: bnd_def lift_result_def ret_def)

lemma SparseMatrix_reinit_total:
  assumes "pending w = []"
  shows "\<exists>p w'. SparseMatrix_reinit rs cs pat com w = (Inr p, w') \<and> grown w 1 w'"
  using assms
  by (simp add: SparseMatrix_reinit_def bnd_def AssertThrow_def AssertThrow_out_def MatCreate_def
      MatSetSizes_def MatSetType_def MatPreallocate_def MatAssemblyBegin_def MatAssemblyEnd_def
      native_update_def native_def next_status_def update_object_def ret_def grown_def
      block_created_def)

lemma reinit_cell_total:
  assumes p: "pending w = []" and b: "bdsp_block bdsp r c = Inr pat"
    and ok: "index_space_size (rows ! r) = n_rows pat" "index_space_size (cols ! c) = n_cols pat"
  shows "\<exists>bm' w'. reinit_cell rows cols bdsp com r c bm w = (Inr bm', w') \<and> grown w 1 w'"
proof -
  from SparseMatrix_reinit_total[OF p] obtain q w' where
    "SparseMatrix_reinit (rows ! r) (cols ! c) pat com w = (Inr q, w')" "grown w 1 w'" by blast
  then show ?thesis
    using b ok by (simp add: reinit_cell_def bnd_def lift_result_def Assert_def ret_def)
qed

lemma cells_total:
  assumes p: "pending w = []"
    and ok: "\<And>c. c \<in> set cs \<Longrightarrow> \<exists>pat. bdsp_block bdsp r c = Inr pat \<and>
        index_space_size (rows ! r) = n_rows pat \<and> index_space_size (cols ! c) = n_cols pat"
  shows "\<exists>bm' w'. for_each cs (\<lambda>c. reinit_cell rows cols bdsp com r c) bm w = (Inr bm', w') \<and>
           grown w (length cs) w'"
  using assms
proof (induction cs arbitrary: bm w)
  case Nil
  then show ?case by (simp add: grown_0)
next
  case (Cons c cs)
  from Cons.prems(2)[of c] obtain pat where "bdsp_block bdsp r c = Inr pat"
    "index_space_size (rows ! r) = n_rows pat" "index_space_size (cols ! c) = n_cols pat" by auto
  from reinit_cell_total[OF Cons.prems(1) this] obtain bm1 w1 where
    s: "reinit_cell rows cols bdsp com r c bm w = (Inr bm1, w1)" and g: "grown w 1 w1" by blast
  from g have "pending w1 = []" by (simp add: grown_def)
  from Cons.IH[OF this, of bm1] Cons.prems(2) obtain bm' w' where
    r: "for_each cs (\<lambda>c. reinit_cell rows cols bdsp com r c) bm1 w1 = (Inr bm', w')"
    and g': "grown w1 (length cs) w'" by auto
  from grown_trans[OF g g'] s r show ?case by simp
qed

lemma rows_total:
  assumes p: "pending w = []"
    and ok: "\<And>r c. r \<in> set rs \<Longrightarrow> c \<in> set cs \<Longrightarrow> \<exists>pat. bdsp_block bdsp r c = Inr pat \<and>
        index_space_size (rows ! r) = n_rows pat \<and> index_space_size (cols ! c) = n_cols pat"
  shows "\<exists>bm' w'. for_each rs (\<lambda>r. for_each cs (\<lambda>c. reinit_cell rows cols bdsp com r c)) bm w
           = (Inr bm', w') \<and> grown w (length rs * length cs) w'"
  using assms
proof (induction rs arbitrary: bm w)
  case Nil
  then show ?case by (simp add: grown_0)
next
  case (Cons r rs)
  from cells_total[OF Cons.prems(1), of cs bdsp r rows cols com bm] Cons.prems(2)
  obtain bm1 w1 where
    s: "for_each cs (\<lambda>c. reinit_cell rows cols bdsp com r c) bm w = (Inr bm1, w1)"
    and g: "grown w (length cs) w1" by auto
  from g have "pending w1 = []" by (simp add: grown_def)
  from Cons.IH[OF this, of bm1] Cons.prems(2) obtain bm' w' where
    r: "for_each rs (\<lambda>r. for_each cs (\<lambda>c. reinit_cell rows cols bdsp com r c)) bm1 w1
          = (Inr bm', w')"
    and g': "grown w1 (length rs * length cs) w'" by auto
  from grown_trans[OF g g'] s r show ?case by (simp add: add.commute)
qed

lemma bnd_ok: "m w = (Inr x, w1) \<Longrightarrow> bnd m f w = f x w1"
  by (simp add: bnd_def)

lemma bnd_err: "m w = (Inl e, w1) \<Longrightarrow> bnd m f w = (Inl e, w1)"
  by (simp add: bnd_def)

lemma reinit_partition_first_bad_cell:
  assumes lr: "length rows = bdsp_n_block_rows bdsp" and lc: "length cols = bdsp_n_block_cols bdsp"
    and r: "r < bdsp_n_block_rows bdsp" and c: "c < bdsp_n_block_cols bdsp"
    and bad: "index_space_size (rows ! r) \<noteq> n_rows (bdsp_sub_objects bdsp r c) \<or>
              index_space_size (cols ! c) \<noteq> n_cols (bdsp_sub_objects bdsp r c)"
    and good: "\<And>r' c'. r' < bdsp_n_block_rows bdsp \<Longrightarrow> c' < bdsp_n_block_cols bdsp \<Longrightarrow>
              r' < r \<or> (r' = r \<and> c' < c) \<Longrightarrow>
              index_space_size (rows ! r') = n_rows (bdsp_sub_objects bdsp r' c') \<and>
              index_space_size (cols ! c') = n_cols (bdsp_sub_objects bdsp r' c')"
    and p: "pending w = []"
  shows "\<exists>w'. reinit_partition rows cols bdsp com bm w = (Inl InvalidSize, w') \<and>
              fresh w' = fresh w + (r * bdsp_n_block_cols bdsp + c) \<and>
              (\<forall>j. j < r * bdsp_n_block_cols bdsp + c \<longrightarrow> block_created w' (fresh w + j))"
proof -
  let ?R = "bdsp_n_block_rows bdsp" and ?C = "bdsp_n_block_cols bdsp"
  let ?cell = "\<lambda>r c. reinit_cell rows cols bdsp com r c"
  have a1: "Assert (length rows = ?R) InvalidSize w = (Inr (), w)"
    and a2: "Assert (length cols = ?C) InvalidSize w = (Inr (), w)"
    using lr lc by (simp_all add: Assert_def)
  from clear_quiet[OF p, of bm] obtain bm0 w0 where
    clr: "clear bm w = (Inr bm0, w0)" and p0: "pending w0 = []" and f0: "fresh w0 = fresh w"
    by blast
  let ?rs = "map (\<lambda>r. n_rows (bdsp_sub_objects bdsp r 0)) [0..<?R]"
  let ?cs = "map (\<lambda>c. n_cols (bdsp_sub_objects bdsp 0 c)) [0..<?C]"
  have rowsz: "for_each [0..<?R]
            (\<lambda>r szs. bnd (lift_result (bdsp_block bdsp r 0))
                       (\<lambda>pat. ret (szs @ [n_rows pat]))) [] w0 = (Inr ?rs, w0)"
    using size_loop_total[where blk = "\<lambda>r. bdsp_block bdsp r 0" and f = n_rows
        and pat = "\<lambda>r. bdsp_sub_objects bdsp r 0" and xs = "[0..<?R]" and acc = "[]" and w = w0]
      c by (simp add: bdsp_block_Inr)
  have colsz: "for_each [0..<?C]
            (\<lambda>c szs. bnd (lift_result (bdsp_block bdsp 0 c))
                       (\<lambda>pat. ret (szs @ [n_cols pat]))) [] w0 = (Inr ?cs, w0)"
    using size_loop_total[where blk = "\<lambda>c. bdsp_block bdsp 0 c" and f = n_cols
        and pat = "\<lambda>c. bdsp_sub_objects bdsp 0 c" and xs = "[0..<?C]" and acc = "[]" and w = w0]
      r by (simp add: bdsp_block_Inr)
  let ?bm1 = "bm0\<lparr>sub_objects := (\<lambda>r c. None),
                   row_block_indices := BlockIndices_reinit_sizes ?rs,
                   column_block_indices := BlockIndices_reinit_sizes ?cs\<rparr>"
  have sh: "n_block_rows ?bm1 = ?R" "n_block_cols ?bm1 = ?C"
    by (simp_all add: n_block_rows_def n_block_cols_def BlockIndices_size_def
        BlockIndices_reinit_sizes_def)
  have ok: "\<exists>pat. bdsp_block bdsp r' c' = Inr pat \<and>
        index_space_size (rows ! r') = n_rows pat \<and> index_space_size (cols ! c') = n_cols pat"
    if "r' < ?R" "c' < ?C" "r' < r \<or> (r' = r \<and> c' < c)" for r' c'
    using good[OF that] that by (simp add: bdsp_block_Inr)
  from rows_total[OF p0, of "[0..<r]" "[0..<?C]" bdsp rows cols com ?bm1] ok r
  obtain bmA wA where
    A: "for_each [0..<r] (\<lambda>r. for_each [0..<?C] (\<lambda>c. ?cell r c)) ?bm1 w0 = (Inr bmA, wA)"
    and gA: "grown w0 (r * ?C) wA" by auto
  from gA have pA: "pending wA = []" by (simp add: grown_def)
  from cells_total[OF pA, of "[0..<c]" bdsp r rows cols com bmA] ok r c
  obtain bmB wB where
    B: "for_each [0..<c] (\<lambda>c. ?cell r c) bmA wA = (Inr bmB, wB)"
    and gB: "grown wA c wB" by auto
  have cell: "?cell r c bmB wB = (Inl InvalidSize, wB)"
    using bad r c by (intro reinit_cell_InvalidSize[where pat = "bdsp_sub_objects bdsp r c"])
      (simp_all add: bdsp_block_Inr)
  have row: "for_each [0..<?C] (\<lambda>c. ?cell r c) bmA wA = (Inl InvalidSize, wB)"
    using B cell by (subst upt_split[OF c]) (simp add: for_each_append)
  have loop: "for_each [0..<n_block_rows ?bm1]
                (\<lambda>r. for_each [0..<n_block_cols ?bm1] (\<lambda>c. ?cell r c)) ?bm1 w0
              = (Inl InvalidSize, wB)"
    unfolding sh using A row by (subst upt_split[OF r]) (simp add: for_each_append)
  have res: "reinit_partition rows cols bdsp com bm w = (Inl InvalidSize, wB)"
    unfolding reinit_partition_def
    by (simp only: bnd_ok[where m = "Assert (length rows = ?R) InvalidSize", OF a1]
        bnd_ok[where m = "Assert (length cols = ?C) InvalidSize", OF a2]
        bnd_ok[where m = "clear bm", OF clr]
        bnd_ok[where m = "for_each [0..<?R] (\<lambda>r szs. bnd (lift_result (bdsp_block bdsp r 0))
                       (\<lambda>pat. ret (szs @ [n_rows pat]))) []", OF rowsz]
        bnd_ok[where m = "for_each [0..<?C] (\<lambda>c szs. bnd (lift_result (bdsp_block bdsp 0 c))
                       (\<lambda>pat. ret (szs @ [n_cols pat]))) []", OF colsz]
        Let_def
        bnd_err[where m = "for_each [0..<n_block_rows ?bm1]
                (\<lambda>r. for_each [0..<n_block_cols ?bm1] (\<lambda>c. ?cell r c)) ?bm1", OF loop])
  from grown_trans[OF gA gB] have g: "grown w0 (r * ?C + c) wB" .
  then have "fresh wB = fresh w + (r * ?C + c)"
    "\<forall>j. j < r * ?C + c \<longrightarrow> block_created wB (fresh w + j)"
    using f0 by (simp_all add: grown_def)
  with res show ?thesis by blast
qed

section \<open>The claims\<close>

text \<open>
  C1: after a successful \<^verbatim>\<open>collect_sizes\<close> every cell of the grid holds a block, and
  \<^verbatim>\<open>n_nonzero_elements\<close> returns the sum, over all rows \<open>r\<close> and columns \<open>c\<close> of the
  grid, of the nonzero count of block \<open>(r, c)\<close>. The sum is one of 64-bit unsigned
  values; it is the sum of the counts as natural numbers whenever that sum fits 64 bits.
\<close>

theorem C1_total_nonzero_count:
  assumes "collect_sizes bm w = (Inr bm', w')"
  shows "all_cells_assigned bm' \<and>
         n_nonzero_elements bm' w' =
           (Inr (\<Sum>r<n_block_rows bm'. \<Sum>c<n_block_cols bm'. cell_nonzero_count w' bm' r c), w') \<and>
         ((\<Sum>r<n_block_rows bm'. \<Sum>c<n_block_cols bm'. unat (cell_nonzero_count w' bm' r c))
            < 2 ^ 64 \<longrightarrow>
          unat (\<Sum>r<n_block_rows bm'. \<Sum>c<n_block_cols bm'. cell_nonzero_count w' bm' r c) =
            (\<Sum>r<n_block_rows bm'. \<Sum>c<n_block_cols bm'. unat (cell_nonzero_count w' bm' r c)))"
  using collect_sizes_assigned[OF assms] unat_sum_no_overflow
  by (simp add: n_nonzero_elements_total)

theorem C1_total_nonzero_count_witness:
  "\<not> isl (fst (collect_sizes scenario_grid scenario_world)) \<and>
   n_nonzero_elements (projr (fst (collect_sizes scenario_grid scenario_world)))
       (snd (collect_sizes scenario_grid scenario_world)) =
     (Inr (\<Sum>r<n_block_rows (projr (fst (collect_sizes scenario_grid scenario_world))).
           \<Sum>c<n_block_cols (projr (fst (collect_sizes scenario_grid scenario_world))).
             cell_nonzero_count (snd (collect_sizes scenario_grid scenario_world))
               (projr (fst (collect_sizes scenario_grid scenario_world))) r c),
      snd (collect_sizes scenario_grid scenario_world)) \<and>
   fst (n_nonzero_elements (projr (fst (collect_sizes scenario_grid scenario_world)))
       (snd (collect_sizes scenario_grid scenario_world))) = Inr 12"
proof -
  have ok: "\<not> isl (fst (collect_sizes scenario_grid scenario_world))" by code_simp
  then obtain bm' where "fst (collect_sizes scenario_grid scenario_world) = Inr bm'"
    by (cases "fst (collect_sizes scenario_grid scenario_world)") auto
  then have eq: "collect_sizes scenario_grid scenario_world
                 = (Inr bm', snd (collect_sizes scenario_grid scenario_world))"
    by (simp add: prod_eq_iff)
  have v: "fst (n_nonzero_elements (projr (fst (collect_sizes scenario_grid scenario_world)))
       (snd (collect_sizes scenario_grid scenario_world))) = Inr 12" by code_simp
  from C1_total_nonzero_count[OF eq] ok v show ?thesis
    using \<open>fst (collect_sizes scenario_grid scenario_world) = Inr bm'\<close> by simp
qed

text \<open>
  C2: when \<^verbatim>\<open>collect_sizes\<close> succeeds on a grid whose cell \<open>(r, c)\<close> is null, while
  row \<open>r\<close> and column \<open>c\<close> hold real blocks (\<open>br\<close> the last one of the row, \<open>bc\<close>
  the last one of the column), the cell afterwards holds a block whose global and local
  row sizes are the sizes recorded for row \<open>r\<close> (those of \<open>br\<close>), whose global and
  local column sizes are the sizes recorded for column \<open>c\<close> (those of \<open>bc\<close>), and
  whose nonzero count is 0. In the scenario of a 2 by 2 grid with a 3 by 3 block of 5
  nonzeros at (0,0) and a 4 by 4 block of 7 nonzeros at (1,1), the call succeeds, block
  (0,1) is 3 by 4 and block (1,0) is 4 by 3, both without nonzeros, the total nonzero
  count is 12, and the global row and column counts are both 7.
\<close>

theorem C2_placeholder_fill:
  assumes ok: "collect_sizes bm w = (Inr bm', w')"
    and al: "allocated w (petsc_nest_matrix bm)"
    and r: "r < n_block_rows bm" and c: "c < n_block_cols bm"
    and null: "sub_objects bm r c = None"
    and c1: "c1 < n_block_cols bm" and br: "sub_objects bm r c1 = Some br"
    and rlast: "\<forall>c'. c1 < c' \<and> c' < n_block_cols bm \<longrightarrow> sub_objects bm r c' = None"
    and r1: "r1 < n_block_rows bm" and bc: "sub_objects bm r1 c = Some bc"
    and clast: "\<forall>r'. r1 < r' \<and> r' < n_block_rows bm \<longrightarrow> sub_objects bm r' c = None"
  shows "(\<exists>b. sub_objects bm' r c = Some b \<and>
            MatrixBase_m w' b = row_sizes (scan_sizes w bm) ! r \<and>
            MatrixBase_local_size w' b = row_local_sizes (scan_sizes w bm) ! r \<and>
            MatrixBase_n w' b = col_sizes (scan_sizes w bm) ! c \<and>
            MatrixBase_local_domain_size w' b = col_local_sizes (scan_sizes w bm) ! c \<and>
            row_sizes (scan_sizes w bm) ! r = MatrixBase_m w br \<and>
            row_local_sizes (scan_sizes w bm) ! r = MatrixBase_local_size w br \<and>
            col_sizes (scan_sizes w bm) ! c = MatrixBase_n w bc \<and>
            col_local_sizes (scan_sizes w bm) ! c = MatrixBase_local_domain_size w bc \<and>
            MatrixBase_n_nonzero_elements w' b = 0) \<and>
         (\<not> isl (fst scenario_run) \<and>
          cell_m (snd scenario_run) (projr (fst scenario_run)) 0 1 = 3 \<and>
          cell_n (snd scenario_run) (projr (fst scenario_run)) 0 1 = 4 \<and>
          cell_nonzero_count (snd scenario_run) (projr (fst scenario_run)) 0 1 = 0 \<and>
          cell_m (snd scenario_run) (projr (fst scenario_run)) 1 0 = 4 \<and>
          cell_n (snd scenario_run) (projr (fst scenario_run)) 1 0 = 3 \<and>
          cell_nonzero_count (snd scenario_run) (projr (fst scenario_run)) 1 0 = 0 \<and>
          fst (n_nonzero_elements (projr (fst scenario_run)) (snd scenario_run)) = Inr 12 \<and>
          BlockMatrixBase_m (projr (fst scenario_run)) = 7 \<and>
          BlockMatrixBase_n (projr (fst scenario_run)) = 7)"
proof
  let ?s = "scan_sizes w bm"
  from collect_sizes_placeholder[OF ok al r c null] obtain h where
    h: "sub_objects bm' r c = Some \<lparr>matrix = Some h\<rparr>"
    "objs w' h = Some (dummy_object (comm ?s) (row_local_sizes ?s ! r) (row_sizes ?s ! r)
        (col_local_sizes ?s ! c) (col_sizes ?s ! c))" by blast
  note rd = reads_of_object[OF h(2)]
  from scan_row_last[OF r c1 br, of w] rlast
  have re: "row_sizes ?s ! r = MatrixBase_m w br"
    "row_local_sizes ?s ! r = MatrixBase_local_size w br"
    by (simp_all add: row_entry_def)
  from scan_col_last[OF r1 c bc, of w] clast
  have ce: "col_sizes ?s ! c = MatrixBase_n w bc"
    "col_local_sizes ?s ! c = MatrixBase_local_domain_size w bc"
    by (simp_all add: col_entry_def)
  show "\<exists>b. sub_objects bm' r c = Some b \<and>
            MatrixBase_m w' b = row_sizes ?s ! r \<and>
            MatrixBase_local_size w' b = row_local_sizes ?s ! r \<and>
            MatrixBase_n w' b = col_sizes ?s ! c \<and>
            MatrixBase_local_domain_size w' b = col_local_sizes ?s ! c \<and>
            row_sizes ?s ! r = MatrixBase_m w br \<and>
            row_local_sizes ?s ! r = MatrixBase_local_size w br \<and>
            col_sizes ?s ! c = MatrixBase_n w bc \<and>
            col_local_sizes ?s ! c = MatrixBase_local_domain_size w bc \<and>
            MatrixBase_n_nonzero_elements w' b = 0"
    apply (rule exI[of _ "\<lparr>matrix = Some h\<rparr>"])
    using h(1) re ce by (simp add: rd dummy_object_def new_object_def)
next
  show "\<not> isl (fst scenario_run) \<and>
          cell_m (snd scenario_run) (projr (fst scenario_run)) 0 1 = 3 \<and>
          cell_n (snd scenario_run) (projr (fst scenario_run)) 0 1 = 4 \<and>
          cell_nonzero_count (snd scenario_run) (projr (fst scenario_run)) 0 1 = 0 \<and>
          cell_m (snd scenario_run) (projr (fst scenario_run)) 1 0 = 4 \<and>
          cell_n (snd scenario_run) (projr (fst scenario_run)) 1 0 = 3 \<and>
          cell_nonzero_count (snd scenario_run) (projr (fst scenario_run)) 1 0 = 0 \<and>
          fst (n_nonzero_elements (projr (fst scenario_run)) (snd scenario_run)) = Inr 12 \<and>
          BlockMatrixBase_m (projr (fst scenario_run)) = 7 \<and>
          BlockMatrixBase_n (projr (fst scenario_run)) = 7"
    by code_simp
qed

theorem C2_placeholder_fill_witness:
  "\<not> isl (fst scenario_run) \<and>
   (\<exists>b. sub_objects (projr (fst scenario_run)) 0 1 = Some b \<and>
        MatrixBase_m (snd scenario_run) b = 3 \<and>
        MatrixBase_local_size (snd scenario_run) b = 3 \<and>
        MatrixBase_n (snd scenario_run) b = 4 \<and>
        MatrixBase_local_domain_size (snd scenario_run) b = 4 \<and>
        MatrixBase_n_nonzero_elements (snd scenario_run) b = 0)"
proof -
  have ok: "\<not> isl (fst scenario_run)" by code_simp
  then obtain bm' where "fst scenario_run = Inr bm'"
    by (cases "fst scenario_run") auto
  then have eq: "collect_sizes scenario_grid scenario_world = (Inr bm', snd scenario_run)"
    and p: "projr (fst scenario_run) = bm'"
    by (simp_all add: prod_eq_iff scenario_run_def)
  have pre: "allocated scenario_world (petsc_nest_matrix scenario_grid)"
    "0 < n_block_rows scenario_grid" "1 < n_block_cols scenario_grid"
    "sub_objects scenario_grid 0 1 = None"
    "0 < n_block_cols scenario_grid" "sub_objects scenario_grid 0 0 = Some \<lparr>matrix = Some 0\<rparr>"
    "1 < n_block_rows scenario_grid" "sub_objects scenario_grid 1 1 = Some \<lparr>matrix = Some 1\<rparr>"
    by (simp_all add: scenario_grid_def allocated_def n_block_rows_def n_block_cols_def
        BlockIndices_size_def BlockIndices_reinit_def)
  have l1: "\<forall>c'. 0 < c' \<and> c' < n_block_cols scenario_grid \<longrightarrow> sub_objects scenario_grid 0 c' = None"
    by (simp add: scenario_grid_def)
  have l2: "\<forall>r'. 1 < r' \<and> r' < n_block_rows scenario_grid \<longrightarrow> sub_objects scenario_grid r' 1 = None"
    by (simp add: scenario_grid_def)
  have v: "row_sizes (scan_sizes scenario_world scenario_grid) ! 0 = 3"
    "row_local_sizes (scan_sizes scenario_world scenario_grid) ! 0 = 3"
    "col_sizes (scan_sizes scenario_world scenario_grid) ! 1 = 4"
    "col_local_sizes (scan_sizes scenario_world scenario_grid) ! 1 = 4"
    by code_simp+
  from C2_placeholder_fill[OF eq pre(1) pre(2) pre(3) pre(4) pre(5) pre(6) l1 pre(7) pre(8) l2]
  show ?thesis using ok p v by auto
qed

text \<open>
  C3 (amended): \<^verbatim>\<open>reinit(0, 0)\<close> followed by \<^verbatim>\<open>collect_sizes()\<close> never raises a
  precondition violation. Both loop nests are empty, no size is needed, and the call
  either fails with the error of a native call that the backend rejected (the release
  of the old aggregate or the creation of the new one), or succeeds and leaves a new,
  empty 0 by 0 aggregate over the null communicator.
\<close>

theorem C3_empty_grid_synchronize:
  "case bnd (reinit 0 0 bm) collect_sizes w of
     (Inl e, w') \<Rightarrow> (\<exists>ierr. ierr \<noteq> 0 \<and> e = BackendError ierr)
   | (Inr bm', w') \<Rightarrow>
       n_block_rows bm' = 0 \<and> n_block_cols bm' = 0 \<and>
       (\<exists>h. petsc_nest_matrix bm' = Some h \<and>
            objs w' h = Some (nest_object MPI_COMM_NULL 0 0 []))"
proof -
  from reinit_0_0[of bm w] obtain bm1 w1 where r: "reinit 0 0 bm w = (Inr bm1, w1)"
    and s: "n_block_rows bm1 = 0" "n_block_cols bm1 = 0" by blast
  have "bnd (reinit 0 0 bm) collect_sizes w = collect_sizes bm1 w1"
    using r by (simp add: bnd_def)
  also note collect_sizes_0_0[OF s]
  finally show ?thesis
    by (cases "petsc_nest_matrix bm1")
       (auto simp: bnd_def ret_def AssertThrow_out_def destroy_matrix_def MatDestroy_def
          MatCreateNest_def native_def n_block_rows_def n_block_cols_def BlockIndices_size_def
          BlockIndices_reinit_sizes_def release_def
          split: prod.splits sum.splits if_splits option.splits)
qed

theorem C3_empty_grid_synchronize_witness:
  "\<not> isl (fst empty_run) \<and> n_block_rows (projr (fst empty_run)) = 0 \<and>
   n_block_cols (projr (fst empty_run)) = 0 \<and>
   (\<exists>h. petsc_nest_matrix (projr (fst empty_run)) = Some h \<and>
        objs (snd empty_run) h = Some (nest_object MPI_COMM_NULL 0 0 []))"
proof -
  have ok: "\<not> isl (fst empty_run)" by code_simp
  then obtain bm' where "fst empty_run = Inr bm'" by (cases "fst empty_run") auto
  then have eq: "bnd (reinit 0 0 empty_matrix) collect_sizes world0 = (Inr bm', snd empty_run)"
    and p: "projr (fst empty_run) = bm'"
    by (simp_all add: prod_eq_iff empty_run_def)
  from C3_empty_grid_synchronize[of empty_matrix world0] show ?thesis
    using ok p by (simp add: eq)
qed

theorem C3_counterexample:
  "fst empty_run \<noteq> Inl PreconditionViolation \<and> \<not> isl (fst empty_run) \<and>
   petsc_nest_matrix (projr (fst empty_run)) = Some 0 \<and>
   nest_rows (the (objs (snd empty_run) 0)) = 0 \<and>
   nest_cols (the (objs (snd empty_run) 0)) = 0 \<and>
   nest_subs (the (objs (snd empty_run) 0)) = [] \<and>
   mat_type (the (objs (snd empty_run) 0)) = MATNEST"
proof -
  have ok: "\<not> isl (fst empty_run)" by code_simp
  then have "fst empty_run \<noteq> Inl PreconditionViolation" by auto
  moreover have "petsc_nest_matrix (projr (fst empty_run)) = Some 0 \<and>
   nest_rows (the (objs (snd empty_run) 0)) = 0 \<and>
   nest_cols (the (objs (snd empty_run) 0)) = 0 \<and>
   nest_subs (the (objs (snd empty_run) 0)) = [] \<and>
   mat_type (the (objs (snd empty_run) 0)) = MATNEST" by code_simp
  ultimately show ?thesis using ok by simp
qed

text \<open>
  C4: a successful \<^verbatim>\<open>collect_sizes\<close> ends with exactly two native calls, the release
  of the previous aggregate handle and then \<^verbatim>\<open>MatCreateNest\<close>. The new aggregate
  handle is one the backend had not handed out before the call; its object is a nest over
  the grid shape whose sub-handles are, in row-major order, the very handles held by the
  grid cells. The object of the previous aggregate is not modified: it only loses one
  reference (and is released with its last one), and when there was no previous aggregate
  no object that existed before the call has changed.
\<close>

theorem C4_aggregate_rebuilt:
  assumes "collect_sizes bm w = (Inr bm', w')"
  shows "\<exists>h subs pre.
     petsc_nest_matrix bm' = Some h \<and> fresh w \<le> h \<and> fresh w' = Suc h \<and>
     objs w' h = Some (nest_object (comm (scan_sizes w bm)) (n_block_rows bm') (n_block_cols bm') subs) \<and>
     length subs = n_block_rows bm' * n_block_cols bm' \<and>
     (\<forall>r c. r < n_block_rows bm' \<and> c < n_block_cols bm' \<longrightarrow>
        subs ! (r * n_block_cols bm' + c) = cell_matrix bm' r c) \<and>
     calls w' = pre @ [CallMatDestroy (petsc_nest_matrix bm),
                       CallMatCreateNest (comm (scan_sizes w bm)) (n_block_rows bm')
                         (n_block_cols bm') subs] \<and>
     (\<forall>h0 ob. petsc_nest_matrix bm = Some h0 \<and> h0 < fresh w \<and> objs w h0 = Some ob \<longrightarrow>
        objs w' h0 = (if refct ob \<le> 1 then None else Some (ob\<lparr>refct := refct ob - 1\<rparr>))) \<and>
     (\<forall>h0. petsc_nest_matrix bm \<noteq> Some h0 \<and> h0 < fresh w \<longrightarrow> objs w' h0 = objs w h0)"
  using collect_sizes_nest[OF assms] .

theorem C4_aggregate_rebuilt_witness:
  "\<not> isl (fst scenario_run) \<and> \<not> isl (fst scenario_rerun) \<and>
   petsc_nest_matrix (projr (fst scenario_run)) = Some 4 \<and>
   petsc_nest_matrix (projr (fst scenario_rerun)) = Some 5 \<and>
   objs (snd scenario_rerun) 4 = None \<and>
   objs (snd scenario_rerun) 5 = Some (nest_object (Comm 0) 2 2 [Some 0, Some 2, Some 3, Some 1]) \<and>
   (\<exists>pre. calls (snd scenario_rerun) =
      pre @ [CallMatDestroy (Some 4),
             CallMatCreateNest (Comm 0) 2 2 [Some 0, Some 2, Some 3, Some 1]])"
proof -
  have ok: "\<not> isl (fst scenario_run)" "\<not> isl (fst scenario_rerun)" by code_simp+
  then obtain bm' where "fst scenario_rerun = Inr bm'" by (cases "fst scenario_rerun") auto
  then have eq: "collect_sizes (projr (fst scenario_run)) (snd scenario_run)
                 = (Inr bm', snd scenario_rerun)"
    and p: "projr (fst scenario_rerun) = bm'"
    by (simp_all add: prod_eq_iff scenario_rerun_def)
  have v: "petsc_nest_matrix (projr (fst scenario_run)) = Some 4"
    "petsc_nest_matrix (projr (fst scenario_rerun)) = Some 5"
    "fresh (snd scenario_run) = 5"
    "refct (the (objs (snd scenario_run) 4)) = 1"
    "objs (snd scenario_run) 4 \<noteq> None"
    "comm (scan_sizes (snd scenario_run) (projr (fst scenario_run))) = Comm 0"
    "n_block_rows (projr (fst scenario_rerun)) = 2"
    "n_block_cols (projr (fst scenario_rerun)) = 2"
    "map (\<lambda>(r, c). cell_matrix (projr (fst scenario_rerun)) r c) [(0,0), (0,1), (1,0), (1,1)]
       = [Some 0, Some 2, Some 3, Some 1]"
    by code_simp+
  from C4_aggregate_rebuilt[OF eq] obtain h subs pre where
    a: "petsc_nest_matrix bm' = Some h"
    "objs (snd scenario_rerun) h = Some (nest_object
       (comm (scan_sizes (snd scenario_run) (projr (fst scenario_run))))
       (n_block_rows bm') (n_block_cols bm') subs)"
    "length subs = n_block_rows bm' * n_block_cols bm'"
    "\<forall>r c. r < n_block_rows bm' \<and> c < n_block_cols bm' \<longrightarrow>
        subs ! (r * n_block_cols bm' + c) = cell_matrix bm' r c"
    "calls (snd scenario_rerun) = pre @ [CallMatDestroy (petsc_nest_matrix (projr (fst scenario_run))),
                       CallMatCreateNest (comm (scan_sizes (snd scenario_run) (projr (fst scenario_run))))
                         (n_block_rows bm') (n_block_cols bm') subs]"
    "\<forall>h0 ob. petsc_nest_matrix (projr (fst scenario_run)) = Some h0 \<and> h0 < fresh (snd scenario_run)
         \<and> objs (snd scenario_run) h0 = Some ob \<longrightarrow>
        objs (snd scenario_rerun) h0 = (if refct ob \<le> 1 then None else Some (ob\<lparr>refct := refct ob - 1\<rparr>))"
    by blast
  from a(1) v(2) p have h: "h = 5" by simp
  have mn: "n_block_rows bm' = 2" "n_block_cols bm' = 2" using v(7,8) p by simp_all
  have len: "length subs = 4" using a(3) mn by simp
  have cm: "cell_matrix bm' 0 0 = Some 0" "cell_matrix bm' 0 1 = Some 2"
    "cell_matrix bm' 1 0 = Some 3" "cell_matrix bm' 1 1 = Some 1"
    using v(9) p by simp_all
  have "subs ! 0 = Some 0" "subs ! 1 = Some 2" "subs ! 2 = Some 3" "subs ! 3 = Some 1"
    using a(4)[rule_format, of 0 0] a(4)[rule_format, of 0 1]
      a(4)[rule_format, of 1 0] a(4)[rule_format, of 1 1] mn cm by simp_all
  with len have subs: "subs = [Some 0, Some 2, Some 3, Some 1]"
    by (simp add: list_eq_iff_nth_eq less_Suc_eq numeral_eq_Suc all_conj_distrib)
  from v(5) obtain ob where ob: "objs (snd scenario_run) 4 = Some ob" by auto
  with v(4) have "refct ob = 1" by simp
  with a(6)[rule_format, of 4 ob] ob v(1,3) have gone: "objs (snd scenario_rerun) 4 = None" by simp
  have n5: "objs (snd scenario_rerun) 5 = Some (nest_object (Comm 0) 2 2 [Some 0, Some 2, Some 3, Some 1])"
    using a(2) h subs v(6) mn by simp
  have cl: "\<exists>pre. calls (snd scenario_rerun) =
      pre @ [CallMatDestroy (Some 4),
             CallMatCreateNest (Comm 0) 2 2 [Some 0, Some 2, Some 3, Some 1]]"
    using a(5) subs v(1,6) mn by simp
  show ?thesis
    using ok v(1,2) gone n5 cl by simp
qed

text \<open>
  C5: the size-recording scan of \<^verbatim>\<open>collect_sizes\<close> records, for a row, the global and
  local row sizes of the last real block of that row, and for a column the global and
  local column sizes of the last real block of that column, in the row-major order of the
  scan. The scan compares no sizes and has no failure path; with a backend that reports
  no error \<^verbatim>\<open>collect_sizes\<close> succeeds on every grid that has either no cell or both a
  row and a column, whatever the sizes of its blocks.
\<close>

theorem C5_last_writer_wins:
  "(\<forall>r c b. r < n_block_rows bm \<and> c < n_block_cols bm \<and> sub_objects bm r c = Some b \<and>
       (\<forall>c'. c < c' \<and> c' < n_block_cols bm \<longrightarrow> sub_objects bm r c' = None) \<longrightarrow>
       row_sizes (scan_sizes w bm) ! r = MatrixBase_m w b \<and>
       row_local_sizes (scan_sizes w bm) ! r = MatrixBase_local_size w b) \<and>
   (\<forall>r c b. r < n_block_rows bm \<and> c < n_block_cols bm \<and> sub_objects bm r c = Some b \<and>
       (\<forall>r'. r < r' \<and> r' < n_block_rows bm \<longrightarrow> sub_objects bm r' c = None) \<longrightarrow>
       col_sizes (scan_sizes w bm) ! c = MatrixBase_n w b \<and>
       col_local_sizes (scan_sizes w bm) ! c = MatrixBase_local_domain_size w b) \<and>
   (pending w = [] \<and> (n_block_rows bm = 0 \<longleftrightarrow> n_block_cols bm = 0) \<longrightarrow>
       (\<exists>bm' w'. collect_sizes bm w = (Inr bm', w')))"
proof (intro conjI allI impI)
  fix r c b
  assume a: "r < n_block_rows bm \<and> c < n_block_cols bm \<and> sub_objects bm r c = Some b \<and>
       (\<forall>c'. c < c' \<and> c' < n_block_cols bm \<longrightarrow> sub_objects bm r c' = None)"
  then have "row_entry r (scan_sizes w bm) = (MatrixBase_m w b, MatrixBase_local_size w b)"
    by (intro scan_row_last) auto
  then show "row_sizes (scan_sizes w bm) ! r = MatrixBase_m w b"
    "row_local_sizes (scan_sizes w bm) ! r = MatrixBase_local_size w b"
    by (simp_all add: row_entry_def)
next
  fix r c b
  assume a: "r < n_block_rows bm \<and> c < n_block_cols bm \<and> sub_objects bm r c = Some b \<and>
       (\<forall>r'. r < r' \<and> r' < n_block_rows bm \<longrightarrow> sub_objects bm r' c = None)"
  then have "col_entry c (scan_sizes w bm) = (MatrixBase_n w b, MatrixBase_local_domain_size w b)"
    by (intro scan_col_last) auto
  then show "col_sizes (scan_sizes w bm) ! c = MatrixBase_n w b"
    "col_local_sizes (scan_sizes w bm) ! c = MatrixBase_local_domain_size w b"
    by (simp_all add: col_entry_def)
next
  assume a: "pending w = [] \<and> (n_block_rows bm = 0 \<longleftrightarrow> n_block_cols bm = 0)"
  then have "pending w = []" "n_block_rows bm = 0 \<longleftrightarrow> n_block_cols bm = 0" by simp_all
  from collect_sizes_total[OF this] show "\<exists>bm' w'. collect_sizes bm w = (Inr bm', w')"
    by auto
qed

theorem C5_last_writer_wins_witness:
  "MatrixBase_m scenario_world \<lparr>matrix = Some 0\<rparr> = 3 \<and>
   MatrixBase_m scenario_world \<lparr>matrix = Some 1\<rparr> = 4 \<and>
   row_sizes (scan_sizes scenario_world mismatch_grid) ! 0 = 4 \<and>
   row_local_sizes (scan_sizes scenario_world mismatch_grid) ! 0 = 4 \<and>
   col_sizes (scan_sizes scenario_world mismatch_grid) ! 0 = 3 \<and>
   col_sizes (scan_sizes scenario_world mismatch_grid) ! 1 = 4 \<and>
   (\<exists>bm' w'. collect_sizes mismatch_grid scenario_world = (Inr bm', w'))"
proof -
  have sh: "n_block_rows mismatch_grid = 1" "n_block_cols mismatch_grid = 2"
    by (simp_all add: mismatch_grid_def n_block_rows_def n_block_cols_def BlockIndices_size_def
        BlockIndices_reinit_def)
  have cells: "sub_objects mismatch_grid 0 0 = Some \<lparr>matrix = Some 0\<rparr>"
    "sub_objects mismatch_grid 0 1 = Some \<lparr>matrix = Some 1\<rparr>"
    by (simp_all add: mismatch_grid_def)
  have v: "MatrixBase_m scenario_world \<lparr>matrix = Some 0\<rparr> = 3"
    "MatrixBase_m scenario_world \<lparr>matrix = Some 1\<rparr> = 4"
    "MatrixBase_local_size scenario_world \<lparr>matrix = Some 1\<rparr> = 4"
    "MatrixBase_n scenario_world \<lparr>matrix = Some 0\<rparr> = 3"
    "MatrixBase_n scenario_world \<lparr>matrix = Some 1\<rparr> = 4"
    "pending scenario_world = []"
    by code_simp+
  note t = C5_last_writer_wins[of mismatch_grid scenario_world]
  have pr: "0 < n_block_rows mismatch_grid \<and> 1 < n_block_cols mismatch_grid \<and>
      sub_objects mismatch_grid 0 1 = Some \<lparr>matrix = Some 1\<rparr> \<and>
      (\<forall>c'. 1 < c' \<and> c' < n_block_cols mismatch_grid \<longrightarrow> sub_objects mismatch_grid 0 c' = None)"
    using sh cells by auto
  have pc0: "0 < n_block_rows mismatch_grid \<and> 0 < n_block_cols mismatch_grid \<and>
      sub_objects mismatch_grid 0 0 = Some \<lparr>matrix = Some 0\<rparr> \<and>
      (\<forall>r'. 0 < r' \<and> r' < n_block_rows mismatch_grid \<longrightarrow> sub_objects mismatch_grid r' 0 = None)"
    using sh cells by auto
  have pc1: "0 < n_block_rows mismatch_grid \<and> 1 < n_block_cols mismatch_grid \<and>
      sub_objects mismatch_grid 0 1 = Some \<lparr>matrix = Some 1\<rparr> \<and>
      (\<forall>r'. 0 < r' \<and> r' < n_block_rows mismatch_grid \<longrightarrow> sub_objects mismatch_grid r' 1 = None)"
    using sh cells by auto
  from t[THEN conjunct1, rule_format, OF pr]
  have r0: "row_sizes (scan_sizes scenario_world mismatch_grid) ! 0
              = MatrixBase_m scenario_world \<lparr>matrix = Some 1\<rparr>"
    "row_local_sizes (scan_sizes scenario_world mismatch_grid) ! 0
              = MatrixBase_local_size scenario_world \<lparr>matrix = Some 1\<rparr>" by simp_all
  from t[THEN conjunct2, THEN conjunct1, rule_format, OF pc0]
  have c0: "col_sizes (scan_sizes scenario_world mismatch_grid) ! 0
              = MatrixBase_n scenario_world \<lparr>matrix = Some 0\<rparr>" by simp
  from t[THEN conjunct2, THEN conjunct1, rule_format, OF pc1]
  have c1: "col_sizes (scan_sizes scenario_world mismatch_grid) ! 1
              = MatrixBase_n scenario_world \<lparr>matrix = Some 1\<rparr>" by simp
  from t[THEN conjunct2, THEN conjunct2] sh v(6)
  have ex: "\<exists>bm' w'. collect_sizes mismatch_grid scenario_world = (Inr bm', w')" by simp
  show ?thesis using v r0 c0 c1 ex by simp
qed

text \<open>
  C6: from a \<^verbatim>\<open>Consistent\<close> state, let a first \<^verbatim>\<open>collect_sizes\<close> succeed. Whenever a
  second call right after it succeeds, the grid shape, the block sizes of every row and
  column, the native object of every block, the aggregate's native object (its
  communicator, its nest shape and its sub-handles) and the total nonzero count are the
  same after the second call as after the first; and the second call does succeed when
  the backend reports no error.
\<close>

theorem C6_synchronize_idempotent:
  assumes c: "Consistent bm w" and ok1: "collect_sizes bm w = (Inr bm1, w1)"
  shows "(\<forall>bm2 w2. collect_sizes bm1 w1 = (Inr bm2, w2) \<longrightarrow>
            n_block_rows bm2 = n_block_rows bm1 \<and> n_block_cols bm2 = n_block_cols bm1 \<and>
            row_block_indices bm2 = row_block_indices bm1 \<and>
            column_block_indices bm2 = column_block_indices bm1 \<and>
            (\<forall>r c. r < n_block_rows bm1 \<and> c < n_block_cols bm1 \<longrightarrow>
               lookup w2 (cell_matrix bm2 r c) = lookup w1 (cell_matrix bm1 r c)) \<and>
            lookup w2 (petsc_nest_matrix bm2) = lookup w1 (petsc_nest_matrix bm1) \<and>
            (\<exists>ob. lookup w1 (petsc_nest_matrix bm1) = Some ob \<and>
                  nest_rows ob = n_block_rows bm1 \<and> nest_cols ob = n_block_cols bm1) \<and>
            \<not> isl (fst (n_nonzero_elements bm1 w1)) \<and>
            fst (n_nonzero_elements bm2 w2) = fst (n_nonzero_elements bm1 w1)) \<and>
         (pending w1 = [] \<longrightarrow> (\<exists>bm2 w2. collect_sizes bm1 w1 = (Inr bm2, w2)))"
proof (intro conjI allI impI)
  note a = collect_sizes_Consistent[OF c ok1]
  note sok = collect_sizes_shape_ok[OF ok1]
  fix bm2 w2 assume ok2: "collect_sizes bm1 w1 = (Inr bm2, w2)"
  note b = collect_sizes_Consistent[OF a(1) ok2]
  let ?m = "n_block_rows bm" and ?n = "n_block_cols bm"
  show "n_block_rows bm2 = n_block_rows bm1" "n_block_cols bm2 = n_block_cols bm1"
    using b(3,4) by simp_all
  have rd: "lookup w1 (cell_matrix bm1 r c) = lookup w (cell_matrix bm r c)"
    if "r < ?m" "c < ?n" for r c
    using a(5)[OF that] cell_matrix_cong[OF a(2)] by simp
  show "row_block_indices bm2 = row_block_indices bm1"
  proof -
    have "map (\<lambda>r. cell_m w1 bm1 r 0) [0..<?m] = map (\<lambda>r. cell_m w bm r 0) [0..<?m]"
    proof (rule map_cong[OF refl])
      fix r assume "r \<in> set [0..<?m]"
      then have "r < ?m" "0 < ?n" using sok by auto
      then show "cell_m w1 bm1 r 0 = cell_m w bm r 0"
        by (intro cell_reads_cong) (simp_all add: a(2) a(5))
    qed
    then show ?thesis unfolding b(7) a(7) a(3) by (simp only:)
  qed
  show "column_block_indices bm2 = column_block_indices bm1"
  proof -
    have "map (\<lambda>c. cell_n w1 bm1 0 c) [0..<?n] = map (\<lambda>c. cell_n w bm 0 c) [0..<?n]"
    proof (rule map_cong[OF refl])
      fix c assume "c \<in> set [0..<?n]"
      then have "c < ?n" "0 < ?m" using sok by auto
      then show "cell_n w1 bm1 0 c = cell_n w bm 0 c"
        by (intro cell_reads_cong) (simp_all add: a(2) a(5))
    qed
    then show ?thesis unfolding b(8) a(8) a(4) by (simp only:)
  qed
  show "lookup w2 (petsc_nest_matrix bm2) = lookup w1 (petsc_nest_matrix bm1)"
  proof -
    have "scan_sizes w1 bm1 = scan_sizes w bm"
      by (rule scan_sizes_cong[OF a(2) a(3) a(4)]) (rule a(5))
    then show ?thesis
      unfolding b(6) a(6) a(3) a(4) by (simp add: psub_objects_cong[OF a(2)])
  qed
  show "\<exists>ob. lookup w1 (petsc_nest_matrix bm1) = Some ob \<and>
                  nest_rows ob = n_block_rows bm1 \<and> nest_cols ob = n_block_cols bm1"
    unfolding a(6) a(3) a(4) by (simp add: nest_object_def new_object_def)
  have as1: "all_cells_assigned bm1" and as2: "all_cells_assigned bm2"
    using a(1) b(1) by (simp_all add: Consistent_def)
  show "\<not> isl (fst (n_nonzero_elements bm1 w1))"
    by (simp add: n_nonzero_elements_total[OF as1])
  show "fst (n_nonzero_elements bm2 w2) = fst (n_nonzero_elements bm1 w1)"
  proof -
    have "cell_nonzero_count w2 bm2 r c = cell_nonzero_count w1 bm1 r c"
      if "r < n_block_rows bm1" "c < n_block_cols bm1" for r c
      by (intro cell_reads_cong) (simp_all add: b(2) b(5)[OF that])
    then have "(\<Sum>r<n_block_rows bm1. \<Sum>c<n_block_cols bm1. cell_nonzero_count w2 bm2 r c)
             = (\<Sum>r<n_block_rows bm1. \<Sum>c<n_block_cols bm1. cell_nonzero_count w1 bm1 r c)"
      by (intro sum.cong refl) simp
    then show ?thesis
      by (simp add: n_nonzero_elements_total[OF as1] n_nonzero_elements_total[OF as2] b(3) b(4))
  qed
  show "lookup w2 (cell_matrix bm2 r c) = lookup w1 (cell_matrix bm1 r c)"
    if "r < n_block_rows bm1 \<and> c < n_block_cols bm1" for r c
    using b(5)[of r c] that cell_matrix_cong[OF b(2)] by simp
next
  assume p: "pending w1 = []"
  from collect_sizes_total[OF p collect_sizes_shape_ok[OF ok1, unfolded
      collect_sizes_shape[OF ok1, THEN conjunct1, symmetric]
      collect_sizes_shape[OF ok1, THEN conjunct2, symmetric]]]
  show "\<exists>bm2 w2. collect_sizes bm1 w1 = (Inr bm2, w2)" by auto
qed

theorem C6_synchronize_idempotent_witness:
  "Consistent (projr (fst scenario_run)) (snd scenario_run) \<and>
   \<not> isl (fst scenario_rerun) \<and> \<not> isl (fst scenario_rerun2) \<and>
   n_block_rows (projr (fst scenario_rerun2)) = n_block_rows (projr (fst scenario_rerun)) \<and>
   n_block_cols (projr (fst scenario_rerun2)) = n_block_cols (projr (fst scenario_rerun)) \<and>
   row_block_indices (projr (fst scenario_rerun2)) = row_block_indices (projr (fst scenario_rerun)) \<and>
   column_block_indices (projr (fst scenario_rerun2))
     = column_block_indices (projr (fst scenario_rerun)) \<and>
   lookup (snd scenario_rerun2) (petsc_nest_matrix (projr (fst scenario_rerun2)))
     = lookup (snd scenario_rerun) (petsc_nest_matrix (projr (fst scenario_rerun))) \<and>
   fst (n_nonzero_elements (projr (fst scenario_rerun2)) (snd scenario_rerun2))
     = fst (n_nonzero_elements (projr (fst scenario_rerun)) (snd scenario_rerun)) \<and>
   fst (n_nonzero_elements (projr (fst scenario_rerun)) (snd scenario_rerun)) = Inr 12"
proof -
  note c = scenario_run_Consistent
  have ok: "\<not> isl (fst scenario_rerun)" "\<not> isl (fst scenario_rerun2)" by code_simp+
  have v: "fst (n_nonzero_elements (projr (fst scenario_rerun)) (snd scenario_rerun)) = Inr 12"
    by code_simp
  from ok(1) obtain bm1 where f1: "fst scenario_rerun = Inr bm1"
    by (cases "fst scenario_rerun") auto
  then have eq1: "collect_sizes (projr (fst scenario_run)) (snd scenario_run)
                 = (Inr bm1, snd scenario_rerun)"
    by (simp add: prod_eq_iff scenario_rerun_def)
  from ok(2) obtain bm2 where f2: "fst scenario_rerun2 = Inr bm2"
    by (cases "fst scenario_rerun2") auto
  then have eq2: "collect_sizes bm1 (snd scenario_rerun) = (Inr bm2, snd scenario_rerun2)"
    using f1 by (simp add: prod_eq_iff scenario_rerun2_def)
  from C6_synchronize_idempotent[OF c eq1, THEN conjunct1, rule_format, OF eq2]
  show ?thesis using c ok v f1 f2 by simp
qed

text \<open>
  C7 (amended): \<^verbatim>\<open>get_mpi_communicator\<close> returns the communicator of the aggregate
  when the aggregate has one, and stores it in the process-wide static. Otherwise it
  returns the value of that static: \<^verbatim>\<open>PETSC_COMM_SELF\<close> as long as no call in the
  process has found a communicator, and else the communicator that the most recent call,
  on whichever object, returned.
\<close>

theorem C7_process_group:
  "(PetscObjectComm w (petsc_nest_matrix bm) \<noteq> MPI_COMM_NULL \<longrightarrow>
      fst (get_mpi_communicator bm w) = PetscObjectComm w (petsc_nest_matrix bm)) \<and>
   (PetscObjectComm w (petsc_nest_matrix bm) = MPI_COMM_NULL \<and> static_comm w = None \<longrightarrow>
      fst (get_mpi_communicator bm w) = PETSC_COMM_SELF) \<and>
   (PetscObjectComm w (petsc_nest_matrix bm) = MPI_COMM_NULL \<longrightarrow>
      fst (get_mpi_communicator bm (snd (get_mpi_communicator bm0 w)))
        = fst (get_mpi_communicator bm0 w)) \<and>
   objs (snd (get_mpi_communicator bm w)) = objs w"
  by (simp add: get_mpi_communicator_def Let_def PetscObjectComm_def lookup_def
      split: option.splits)

theorem C7_process_group_witness:
  "PetscObjectComm comm_world (petsc_nest_matrix synchronized_matrix) = Comm 1 \<and>
   PetscObjectComm comm_world (petsc_nest_matrix empty_matrix) = MPI_COMM_NULL \<and>
   static_comm comm_world = None \<and>
   fst (get_mpi_communicator synchronized_matrix comm_world) = Comm 1 \<and>
   fst (get_mpi_communicator empty_matrix comm_world) = PETSC_COMM_SELF \<and>
   fst (get_mpi_communicator empty_matrix
          (snd (get_mpi_communicator synchronized_matrix comm_world))) = Comm 1"
proof -
  have a: "PetscObjectComm comm_world (petsc_nest_matrix synchronized_matrix) = Comm 1"
    "PetscObjectComm comm_world (petsc_nest_matrix empty_matrix) = MPI_COMM_NULL"
    "static_comm comm_world = None"
    by (simp_all add: PetscObjectComm_def lookup_def comm_world_def synchronized_matrix_def
        empty_matrix_def nest_object_def new_object_def world0_def)
  from C7_process_group[of comm_world synchronized_matrix synchronized_matrix]
    C7_process_group[of comm_world empty_matrix synchronized_matrix]
  show ?thesis using a by simp
qed

theorem C7_counterexample:
  "petsc_nest_matrix empty_matrix = None \<and>
   fst (get_mpi_communicator empty_matrix comm_world) = PETSC_COMM_SELF \<and>
   fst (get_mpi_communicator empty_matrix
          (snd (get_mpi_communicator synchronized_matrix comm_world))) = Comm 1 \<and>
   fst (get_mpi_communicator empty_matrix
          (snd (get_mpi_communicator synchronized_matrix comm_world)))
     \<noteq> fst (get_mpi_communicator empty_matrix comm_world)"
  by (simp add: get_mpi_communicator_def Let_def PetscObjectComm_def lookup_def comm_world_def
      synchronized_matrix_def empty_matrix_def nest_object_def new_object_def world0_def)

text \<open>
  C8 (amended): in \<^verbatim>\<open>reinit(rows, cols, bdsp, com)\<close> only the two checks of the
  numbers of partitions come before every native call: when one of them fails the call
  reports \<open>InvalidSize\<close> and the backend is untouched. The two size checks of a cell
  \<open>(r, c)\<close> are made inside the loop nest, right before the native block of that cell
  is created. So when the numbers of partitions are right, \<open>(r, c)\<close> is the first cell
  in row-major order whose partition sizes disagree with its pattern, and the backend
  reports no error, the call reports \<open>InvalidSize\<close> only after it has created the native
  blocks of all the \<open>r * n_block_cols + c\<close> cells before \<open>(r, c)\<close>: at the report the
  backend has handed out that many new handles, each of an assembled \<^verbatim>\<open>MATMPIAIJ\<close>
  matrix.
\<close>

theorem C8_invalid_size_checks:
  "(length rows \<noteq> bdsp_n_block_rows bdsp \<or> length cols \<noteq> bdsp_n_block_cols bdsp \<longrightarrow>
      reinit_partition rows cols bdsp com bm w = (Inl InvalidSize, w)) \<and>
   (length rows = bdsp_n_block_rows bdsp \<and> length cols = bdsp_n_block_cols bdsp \<and>
    r < bdsp_n_block_rows bdsp \<and> c < bdsp_n_block_cols bdsp \<and>
    (index_space_size (rows ! r) \<noteq> n_rows (bdsp_sub_objects bdsp r c) \<or>
     index_space_size (cols ! c) \<noteq> n_cols (bdsp_sub_objects bdsp r c)) \<and>
    (\<forall>r' c'. r' < bdsp_n_block_rows bdsp \<and> c' < bdsp_n_block_cols bdsp \<and>
             (r' < r \<or> (r' = r \<and> c' < c)) \<longrightarrow>
        index_space_size (rows ! r') = n_rows (bdsp_sub_objects bdsp r' c') \<and>
        index_space_size (cols ! c') = n_cols (bdsp_sub_objects bdsp r' c')) \<and>
    pending w = [] \<longrightarrow>
      (\<exists>w'. reinit_partition rows cols bdsp com bm w = (Inl InvalidSize, w') \<and>
            fresh w' = fresh w + (r * bdsp_n_block_cols bdsp + c) \<and>
            (\<forall>j. j < r * bdsp_n_block_cols bdsp + c \<longrightarrow> block_created w' (fresh w + j))))"
proof (intro conjI impI)
  assume "length rows \<noteq> bdsp_n_block_rows bdsp \<or> length cols \<noteq> bdsp_n_block_cols bdsp"
  then show "reinit_partition rows cols bdsp com bm w = (Inl InvalidSize, w)"
    by (auto simp: reinit_partition_def bnd_def Assert_def)
next
  assume a: "length rows = bdsp_n_block_rows bdsp \<and> length cols = bdsp_n_block_cols bdsp \<and>
    r < bdsp_n_block_rows bdsp \<and> c < bdsp_n_block_cols bdsp \<and>
    (index_space_size (rows ! r) \<noteq> n_rows (bdsp_sub_objects bdsp r c) \<or>
     index_space_size (cols ! c) \<noteq> n_cols (bdsp_sub_objects bdsp r c)) \<and>
    (\<forall>r' c'. r' < bdsp_n_block_rows bdsp \<and> c' < bdsp_n_block_cols bdsp \<and>
             (r' < r \<or> (r' = r \<and> c' < c)) \<longrightarrow>
        index_space_size (rows ! r') = n_rows (bdsp_sub_objects bdsp r' c') \<and>
        index_space_size (cols ! c') = n_cols (bdsp_sub_objects bdsp r' c')) \<and>
    pending w = []"
  show "\<exists>w'. reinit_partition rows cols bdsp com bm w = (Inl InvalidSize, w') \<and>
            fresh w' = fresh w + (r * bdsp_n_block_cols bdsp + c) \<and>
            (\<forall>j. j < r * bdsp_n_block_cols bdsp + c \<longrightarrow> block_created w' (fresh w + j))"
  proof (rule reinit_partition_first_bad_cell)
    show "length rows = bdsp_n_block_rows bdsp" "length cols = bdsp_n_block_cols bdsp"
      "r < bdsp_n_block_rows bdsp" "c < bdsp_n_block_cols bdsp" "pending w = []"
      using a by simp_all
    show "index_space_size (rows ! r) \<noteq> n_rows (bdsp_sub_objects bdsp r c) \<or>
          index_space_size (cols ! c) \<noteq> n_cols (bdsp_sub_objects bdsp r c)"
      using a by blast
    show "index_space_size (rows ! r') = n_rows (bdsp_sub_objects bdsp r' c') \<and>
          index_space_size (cols ! c') = n_cols (bdsp_sub_objects bdsp r' c')"
      if "r' < bdsp_n_block_rows bdsp" "c' < bdsp_n_block_cols bdsp"
        "r' < r \<or> (r' = r \<and> c' < c)" for r' c'
      using a that by blast
  qed
qed

theorem C8_invalid_size_checks_witness:
  "reinit_partition [] bad_cols example_bdsp (Comm 0) empty_matrix world0
     = (Inl InvalidSize, world0) \<and>
   fst bad_partition_run = Inl InvalidSize \<and>
   fresh (snd bad_partition_run) = 1 \<and>
   block_created (snd bad_partition_run) 0"
proof -
  have len: "length ([] :: IndexSet list) \<noteq> bdsp_n_block_rows example_bdsp
      \<or> length bad_cols \<noteq> bdsp_n_block_cols example_bdsp"
    by (simp add: example_bdsp_def)
  have good: "\<forall>r' c'. r' < bdsp_n_block_rows example_bdsp \<and> c' < bdsp_n_block_cols example_bdsp \<and>
             (r' < 0 \<or> (r' = 0 \<and> c' < 1)) \<longrightarrow>
        index_space_size (example_rows ! r') = n_rows (bdsp_sub_objects example_bdsp r' c') \<and>
        index_space_size (bad_cols ! c') = n_cols (bdsp_sub_objects example_bdsp r' c')"
    by (simp add: example_bdsp_def example_rows_def bad_cols_def)
  have hyp: "length example_rows = bdsp_n_block_rows example_bdsp \<and>
    length bad_cols = bdsp_n_block_cols example_bdsp \<and>
    0 < bdsp_n_block_rows example_bdsp \<and> 1 < bdsp_n_block_cols example_bdsp \<and>
    (index_space_size (example_rows ! 0) \<noteq> n_rows (bdsp_sub_objects example_bdsp 0 1) \<or>
     index_space_size (bad_cols ! 1) \<noteq> n_cols (bdsp_sub_objects example_bdsp 0 1)) \<and>
    (\<forall>r' c'. r' < bdsp_n_block_rows example_bdsp \<and> c' < bdsp_n_block_cols example_bdsp \<and>
             (r' < 0 \<or> (r' = 0 \<and> c' < 1)) \<longrightarrow>
        index_space_size (example_rows ! r') = n_rows (bdsp_sub_objects example_bdsp r' c') \<and>
        index_space_size (bad_cols ! c') = n_cols (bdsp_sub_objects example_bdsp r' c')) \<and>
    pending world0 = []"
    using good by (simp add: example_bdsp_def example_rows_def bad_cols_def world0_def)
  note t1 = C8_invalid_size_checks[where rows = "[]" and bdsp = example_bdsp and cols = bad_cols
      and com = "Comm 0" and bm = empty_matrix and w = world0,
      THEN conjunct1, rule_format, OF len]
  note t2 = C8_invalid_size_checks[where rows = example_rows and bdsp = example_bdsp
      and cols = bad_cols and r = 0 and c = 1 and com = "Comm 0" and bm = empty_matrix
      and w = world0, THEN conjunct2, rule_format, OF hyp]
  from t2 obtain w' where
    "reinit_partition example_rows bad_cols example_bdsp (Comm 0) empty_matrix world0
       = (Inl InvalidSize, w')"
    "fresh w' = fresh world0 + (0 * bdsp_n_block_cols example_bdsp + 1)"
    "\<forall>j. j < 0 * bdsp_n_block_cols example_bdsp + 1 \<longrightarrow> block_created w' (fresh world0 + j)"
    by blast
  then have "fst bad_partition_run = Inl InvalidSize" "fresh (snd bad_partition_run) = 1"
    "block_created (snd bad_partition_run) 0"
    by (simp_all add: bad_partition_run_def world0_def)
  with t1 show ?thesis by simp
qed

theorem C8_counterexample:
  "isl (fst bad_partition_run) \<and> projl (fst bad_partition_run) = InvalidSize \<and>
   fresh (snd bad_partition_run) = 1 \<and>
   mat_type (the (objs (snd bad_partition_run) 0)) = MATMPIAIJ \<and>
   assembled (the (objs (snd bad_partition_run) 0)) \<and>
   calls (snd bad_partition_run) =
     [CallMatDestroy None, CallMatCreate (Comm 0), CallMatSetSizes (Some 0) 2 2 2 2,
      CallMatSetType (Some 0) MATMPIAIJ, CallMatMPIAIJSetPreallocation (Some 0),
      CallMatAssemblyBegin (Some 0), CallMatAssemblyEnd (Some 0)]"
  by code_simp

text \<open>
  C9: \<^verbatim>\<open>reinit(sizes, bdsp, com)\<close> is \<^verbatim>\<open>reinit(sizes, sizes, bdsp, com)\<close>: on every
  object and in every state of the backend both give the same result, error or new
  object, and the same state of the backend.
\<close>

theorem C9_reinit_single_partition:
  "reinit_sizes sizes bdsp com bm w = reinit_partition sizes sizes bdsp com bm w"
  by (simp add: reinit_sizes_def)

theorem C9_reinit_single_partition_witness:
  "good_partition_run =
     reinit_partition [\<lparr>index_space_size = 2, n_elements = 2\<rparr>]
       [\<lparr>index_space_size = 2, n_elements = 2\<rparr>]
       \<lparr>bdsp_n_block_rows = 1, bdsp_n_block_cols = 1,
        bdsp_sub_objects = (\<lambda>r c. \<lparr>n_rows = 2, n_cols = 2, n_nonzero_entries = 3\<rparr>)\<rparr>
       (Comm 0) empty_matrix world0 \<and>
   \<not> isl (fst good_partition_run) \<and>
   BlockMatrixBase_m (projr (fst good_partition_run)) = 2 \<and>
   fst (n_nonzero_elements (projr (fst good_partition_run)) (snd good_partition_run)) = Inr 3"
proof -
  have "\<not> isl (fst good_partition_run)"
    "BlockMatrixBase_m (projr (fst good_partition_run)) = 2"
    "fst (n_nonzero_elements (projr (fst good_partition_run)) (snd good_partition_run)) = Inr 3"
    by code_simp+
  then show ?thesis
    unfolding good_partition_run_def
    using C9_reinit_single_partition[of "[\<lparr>index_space_size = 2, n_elements = 2\<rparr>]"
        "\<lparr>bdsp_n_block_rows = 1, bdsp_n_block_cols = 1,
        bdsp_sub_objects = (\<lambda>r c. \<lparr>n_rows = 2, n_cols = 2, n_nonzero_entries = 3\<rparr>)\<rparr>"
        "Comm 0" empty_matrix world0]
    by simp
qed

text \<open>
  C10: \<^verbatim>\<open>operator=\<close> assigns the base-class part of the source (the grid of blocks
  and the block indices of both axes) and leaves the aggregate handle of the target as
  it was; it issues no native call, so whatever the aggregate handle stood for before the
  assignment it still stands for. The aggregate follows the assigned grid only with the
  next successful \<^verbatim>\<open>collect_sizes\<close>, whose new nest holds the handles of the assigned
  cells.
\<close>

theorem C10_copy_assignment:
  "sub_objects (operator_assign this m) = sub_objects m \<and>
   row_block_indices (operator_assign this m) = row_block_indices m \<and>
   column_block_indices (operator_assign this m) = column_block_indices m \<and>
   petsc_nest_matrix (operator_assign this m) = petsc_nest_matrix this \<and>
   lookup w (petsc_nest_matrix (operator_assign this m)) = lookup w (petsc_nest_matrix this) \<and>
   (\<forall>bm' w'. collect_sizes (operator_assign this m) w = (Inr bm', w') \<longrightarrow>
      (\<exists>ob. lookup w' (petsc_nest_matrix bm') = Some ob \<and>
            nest_rows ob = n_block_rows m \<and> nest_cols ob = n_block_cols m \<and>
            length (nest_subs ob) = n_block_rows m * n_block_cols m \<and>
            (\<forall>r c. r < n_block_rows m \<and> c < n_block_cols m \<and> sub_objects m r c \<noteq> None \<longrightarrow>
               nest_subs ob ! (r * n_block_cols m + c) = cell_matrix m r c)))"
proof (intro conjI allI impI)
  fix bm' w' assume ok: "collect_sizes (operator_assign this m) w = (Inr bm', w')"
  let ?t = "operator_assign this m"
  have sh: "n_block_rows ?t = n_block_rows m" "n_block_cols ?t = n_block_cols m"
    and so: "sub_objects ?t = sub_objects m"
    by (simp_all add: operator_assign_def BlockMatrixBase_assign_def n_block_rows_def
        n_block_cols_def)
  note sh' = collect_sizes_shape[OF ok, unfolded sh]
  from collect_sizes_nest[OF ok] obtain h subs where
    n: "petsc_nest_matrix bm' = Some h"
    "objs w' h = Some (nest_object (comm (scan_sizes w ?t)) (n_block_rows bm') (n_block_cols bm') subs)"
    "length subs = n_block_rows bm' * n_block_cols bm'"
    "\<forall>r c. r < n_block_rows bm' \<and> c < n_block_cols bm' \<longrightarrow>
        subs ! (r * n_block_cols bm' + c) = cell_matrix bm' r c" by blast
  from collect_sizes_Inr[OF ok] obtain bm1 w1 where
    f: "filled (scan_sizes w ?t) ?t w ({0..<n_block_rows ?t} \<times> {0..<n_block_cols ?t}) bm1 w1"
    and s: "sub_objects bm' = sub_objects bm1" by auto
  have keep: "cell_matrix bm' r c = cell_matrix m r c" if "sub_objects m r c \<noteq> None" for r c
  proof -
    from that f so have "sub_objects bm1 r c = sub_objects m r c"
      unfolding filled_def by metis
    then show ?thesis using s by (simp add: cell_matrix_def)
  qed
  show "\<exists>ob. lookup w' (petsc_nest_matrix bm') = Some ob \<and>
            nest_rows ob = n_block_rows m \<and> nest_cols ob = n_block_cols m \<and>
            length (nest_subs ob) = n_block_rows m * n_block_cols m \<and>
            (\<forall>r c. r < n_block_rows m \<and> c < n_block_cols m \<and> sub_objects m r c \<noteq> None \<longrightarrow>
               nest_subs ob ! (r * n_block_cols m + c) = cell_matrix m r c)"
    using n sh' keep by (simp add: lookup_def nest_object_def new_object_def)
qed (simp_all add: operator_assign_def BlockMatrixBase_assign_def)

theorem C10_copy_assignment_witness:
  "petsc_nest_matrix assigned_matrix = Some 4 \<and>
   n_block_rows assigned_matrix = 1 \<and> n_block_cols assigned_matrix = 2 \<and>
   nest_rows (the (lookup (snd scenario_run) (petsc_nest_matrix assigned_matrix))) = 2 \<and>
   nest_subs (the (lookup (snd scenario_run) (petsc_nest_matrix assigned_matrix)))
     = [Some 0, Some 2, Some 3, Some 1] \<and>
   \<not> isl (fst assigned_run) \<and>
   (\<exists>ob. lookup (snd assigned_run) (petsc_nest_matrix (projr (fst assigned_run))) = Some ob \<and>
         nest_rows ob = 1 \<and> nest_cols ob = 2 \<and> length (nest_subs ob) = 2 \<and>
         nest_subs ob ! 0 = Some 0 \<and> nest_subs ob ! 1 = Some 1)"
proof -
  have v: "petsc_nest_matrix (projr (fst scenario_run)) = Some 4"
    "nest_rows (the (lookup (snd scenario_run) (Some 4))) = 2"
    "nest_subs (the (lookup (snd scenario_run) (Some 4))) = [Some 0, Some 2, Some 3, Some 1]"
    "\<not> isl (fst assigned_run)"
    by code_simp+
  have sh: "n_block_rows mismatch_grid = 1" "n_block_cols mismatch_grid = 2"
    by (simp_all add: mismatch_grid_def n_block_rows_def n_block_cols_def BlockIndices_size_def
        BlockIndices_reinit_def)
  have cells: "sub_objects mismatch_grid 0 0 \<noteq> None" "sub_objects mismatch_grid 0 1 \<noteq> None"
    "cell_matrix mismatch_grid 0 0 = Some 0" "cell_matrix mismatch_grid 0 1 = Some 1"
    by (simp_all add: mismatch_grid_def cell_matrix_def petsc_matrix_def)
  note t = C10_copy_assignment[of "projr (fst scenario_run)" mismatch_grid "snd scenario_run"]
  from v(4) obtain bm' where "fst assigned_run = Inr bm'" by (cases "fst assigned_run") auto
  then have eq: "collect_sizes (operator_assign (projr (fst scenario_run)) mismatch_grid)
                   (snd scenario_run) = (Inr bm', snd assigned_run)"
    and p: "projr (fst assigned_run) = bm'"
    by (simp_all add: prod_eq_iff assigned_run_def assigned_matrix_def)
  from t[THEN conjunct2, THEN conjunct2, THEN conjunct2, THEN conjunct2, THEN conjunct2,
      rule_format, OF eq]
  obtain ob where ob: "lookup (snd assigned_run) (petsc_nest_matrix bm') = Some ob"
    "nest_rows ob = n_block_rows mismatch_grid" "nest_cols ob = n_block_cols mismatch_grid"
    "length (nest_subs ob) = n_block_rows mismatch_grid * n_block_cols mismatch_grid"
    "\<forall>r c. r < n_block_rows mismatch_grid \<and> c < n_block_cols mismatch_grid
        \<and> sub_objects mismatch_grid r c \<noteq> None \<longrightarrow>
        nest_subs ob ! (r * n_block_cols mismatch_grid + c) = cell_matrix mismatch_grid r c"
    by blast
  from ob(5)[rule_format, of 0 0] ob(5)[rule_format, of 0 1] sh cells
  have subs: "nest_subs ob ! 0 = Some 0" "nest_subs ob ! 1 = Some 1" by simp_all
  have nst: "petsc_nest_matrix assigned_matrix = Some 4"
    and shape: "n_block_rows assigned_matrix = 1" "n_block_cols assigned_matrix = 2"
    using t v(1) sh
    by (simp_all add: assigned_matrix_def n_block_rows_def n_block_cols_def)
  show ?thesis
    using nst shape v ob(1-4) subs sh p by simp
qed

end
